theory Spec2Isabelle
  imports Complex_Main
begin

section \<open>Session data\<close>

text \<open>
  A participant as the lobby reads it (\<^verbatim>\<open>p.id\<close>, \<^verbatim>\<open>p.isBot\<close>, \<^verbatim>\<open>p.ready\<close>).
  \<open>isBot\<close> is the truthiness of the JavaScript field; \<open>ready\<close> is \<open>None\<close> when the field
  is absent, so that \<^verbatim>\<open>p.ready === true\<close> is \<open>ready p = Some True\<close>.
\<close>

record player =
  p_id :: string
  p_name :: string
  isBot :: bool
  ready :: "bool option"

text \<open>
  The room object pushed by the server. Fields that may be missing in a frame are options
  (\<open>None\<close> is JavaScript's \<^verbatim>\<open>undefined\<close>); \<open>board\<close> stands for the simulation entities,
  which the client never inspects.
\<close>

record room =
  room_code :: string
  status :: string
  host_id :: "string option"
  players :: "player list option"
  chat :: "string list option"
  gameChat :: "string list option"
  typing :: "string list option"
  board :: nat

section \<open>Lobby.jsx: the Start Game control\<close>

text \<open>\<^verbatim>\<open>const isHost = room?.host_id === playerId\<close>\<close>

definition isHost :: "room option \<Rightarrow> string \<Rightarrow> bool" where
  "isHost r playerId =
     (case r of None \<Rightarrow> False
      | Some rm \<Rightarrow> (case host_id rm of None \<Rightarrow> False | Some h \<Rightarrow> h = playerId))"

text \<open>\<^verbatim>\<open>const canStart = room?.players?.length >= 2\<close>; \<^verbatim>\<open>undefined >= 2\<close> is false.\<close>

definition canStart :: "room option \<Rightarrow> bool" where
  "canStart r =
     (case r of None \<Rightarrow> False
      | Some rm \<Rightarrow> (case players rm of None \<Rightarrow> False | Some ps \<Rightarrow> 2 \<le> length ps))"

text \<open>
  \<^verbatim>\<open>room?.players?.filter(p => !p.isBot && p.id !== room?.host_id) || []\<close>
\<close>

definition guestPlayers :: "room option \<Rightarrow> player list" where
  "guestPlayers r =
     (case r of None \<Rightarrow> []
      | Some rm \<Rightarrow>
          (case players rm of None \<Rightarrow> []
           | Some ps \<Rightarrow> filter (\<lambda>p. \<not> isBot p \<and> Some (p_id p) \<noteq> host_id rm) ps))"

text \<open>
  \<^verbatim>\<open>guestPlayers.length === 0 || guestPlayers.every(p => p.ready === true)\<close>
\<close>

definition allReady :: "room option \<Rightarrow> bool" where
  "allReady r =
     (guestPlayers r = [] \<or> list_all (\<lambda>p. ready p = Some True) (guestPlayers r))"

text \<open>
  What the lobby renders at the bottom: the host sees the start button (with its
  \<^verbatim>\<open>disabled\<close> attribute), everybody else the ready toggle.
\<close>

datatype control = StartButton bool | ReadyButton

definition lobby_control :: "room option \<Rightarrow> string \<Rightarrow> control" where
  "lobby_control r playerId =
     (if isHost r playerId then StartButton (\<not> canStart r \<or> \<not> allReady r) else ReadyButton)"

text \<open>
  The click handler of the start button. The result is the list of effects of one click:
  a console line, and the call of \<^verbatim>\<open>onStart\<close> when it is reached. \<open>onStart\<close> is
  whether the handler prop was provided.
\<close>

datatype click_effect = Warn | Log | CallOnStart | ErrorNoHandler

definition start_onClick :: "room option \<Rightarrow> bool \<Rightarrow> click_effect list" where
  "start_onClick r onStart =
     (if \<not> canStart r \<or> \<not> allReady r then [Warn]
      else if onStart then [Log, CallOnStart]
      else [Log, ErrorNoHandler])"

text \<open>
  A click on the lobby's bottom control by the local participant: only a rendered start
  button that is not disabled runs \<open>start_onClick\<close>.
\<close>

definition click_start :: "room option \<Rightarrow> string \<Rightarrow> bool \<Rightarrow> click_effect list" where
  "click_start r playerId onStart =
     (case lobby_control r playerId of
        StartButton disabled \<Rightarrow> (if disabled then [] else start_onClick r onStart)
      | ReadyButton \<Rightarrow> [])"

definition lobby_room :: room where
  "lobby_room =
     \<lparr>room_code = ''ABCD'', status = ''waiting'', host_id = Some ''p1'',
      players = Some
        [\<lparr>p_id = ''p1'', p_name = ''Ann'', isBot = False, ready = None\<rparr>,
         \<lparr>p_id = ''p2'', p_name = ''Bob'', isBot = False, ready = Some True\<rparr>,
         \<lparr>p_id = ''b1'', p_name = ''Bot'', isBot = True, ready = None\<rparr>],
      chat = None, gameChat = None, typing = None, board = 0\<rparr>"

section \<open>websocketClient.js: the transport client\<close>

text \<open>
  Every \<^verbatim>\<open>new WebSocket(url)\<close> creates an object of its own, and \<^verbatim>\<open>this.ws\<close> only
  refers to the latest one, while the handlers of the earlier ones stay bound to the same
  client. The sockets are therefore kept in a store (\<open>sockets\<close>, indexed by creation order)
  and \<open>ws\<close> is a reference into it.
\<close>

datatype readyState = CONNECTING | OPEN | CLOSING | CLOSED

record message =
  action :: string
  m_playerId :: "string option"
  responseId :: string
  params :: string

datatype frame = Ping | Json message

text \<open>
  The fields of the class. \<open>pingInterval\<close> and \<open>pongTimeout\<close> hold the period and the
  delay (in milliseconds) of the timer whose handle the field stores. Three fields record
  what the client does to its surroundings: \<open>wire\<close> the frames given to \<^verbatim>\<open>ws.send\<close>
  (with the socket), \<open>emitted\<close> the events passed to \<^verbatim>\<open>this.emit\<close>, \<open>scheduled\<close> the
  delays of the \<^verbatim>\<open>setTimeout(() => this.connect(), delay)\<close> calls.
\<close>

record client =
  ws :: "nat option"
  sockets :: "readyState list"
  playerId :: "string option"
  reconnectAttempts :: nat
  maxReconnectAttempts :: nat
  messageQueue :: "message list"
  connected :: bool
  pingInterval :: "nat option"
  pongTimeout :: "nat option"
  isProduction :: bool
  wire :: "(nat \<times> frame) list"
  emitted :: "string list"
  scheduled :: "real list"

definition new_client :: "bool \<Rightarrow> client" where
  "new_client is_prod =
     \<lparr>ws = None, sockets = [], playerId = None, reconnectAttempts = 0,
      maxReconnectAttempts = 10, messageQueue = [], connected = False,
      pingInterval = None, pongTimeout = None, isProduction = is_prod,
      wire = [], emitted = [], scheduled = []\<rparr>"

text \<open>\<^verbatim>\<open>this.ws?.readyState === WebSocket.OPEN\<close>\<close>

definition ws_is_open :: "client \<Rightarrow> bool" where
  "ws_is_open c =
     (case ws c of None \<Rightarrow> False
      | Some i \<Rightarrow> i < length (sockets c) \<and> sockets c ! i = OPEN)"

text \<open>\<^verbatim>\<open>this.ws.send(data)\<close> on the socket \<open>this.ws\<close> refers to.\<close>

definition ws_send :: "frame \<Rightarrow> client \<Rightarrow> client" where
  "ws_send f c =
     (case ws c of None \<Rightarrow> c | Some i \<Rightarrow> c\<lparr>wire := wire c @ [(i, f)]\<rparr>)"

text \<open>
  \<^verbatim>\<open>this.emit(event)\<close> as the client's state machine sees it: the event goes out. What
  the dispatch to the registered callbacks does is \<open>emit\<close> below.
\<close>

definition signal :: "string \<Rightarrow> client \<Rightarrow> client" where
  "signal ev c = c\<lparr>emitted := emitted c @ [ev]\<rparr>"

text \<open>
  \<^verbatim>\<open>connect()\<close>. \<open>fresh_pid\<close> is the random player id it draws; \<open>ctor_throws\<close> says
  whether the WebSocket constructor throws, which the \<^verbatim>\<open>catch\<close> turns into an
  \<^verbatim>\<open>error\<close> event.
\<close>

definition connect :: "string \<Rightarrow> bool \<Rightarrow> client \<Rightarrow> client" where
  "connect fresh_pid ctor_throws c =
     (if ctor_throws then signal ''error'' c
      else c\<lparr>ws := Some (length (sockets c)),
             sockets := sockets c @ [CONNECTING],
             playerId := Some fresh_pid\<rparr>)"

subsection \<open>Double-precision arithmetic\<close>

text \<open>
  JavaScript numbers are IEEE 754 binary64 values, and every arithmetic operation rounds
  its exact result to the nearest one, ties to the even significand. \<open>rne\<close> rounds a
  real to the nearest integer in that way, \<open>binade x\<close> is the exponent \<open>e\<close> with
  \<open>2 ^ e \<le> x < 2 ^ (e + 1)\<close>, and \<open>fl64\<close> rounds a real to 53 significant bits. The
  exponent is not bounded: overflow and subnormal numbers, far away from the delays
  computed here, are left out.
\<close>

definition rne :: "real \<Rightarrow> int" where
  "rne m =
     (let f = \<lfloor>m\<rfloor>; d = m - of_int f
      in if d < 1 / 2 then f else if 1 / 2 < d then f + 1 else if even f then f else f + 1)"

definition binade :: "real \<Rightarrow> int" where
  "binade x = \<lfloor>log 2 x\<rfloor>"

definition fl64 :: "real \<Rightarrow> real" where
  "fl64 x =
     (if x = 0 then 0
      else sgn x * of_int (rne (\<bar>x\<bar> / 2 powi (binade \<bar>x\<bar> - 52))) * 2 powi (binade \<bar>x\<bar> - 52))"

subsection \<open>Reconnecting\<close>

definition baseDelay :: "bool \<Rightarrow> real" where
  "baseDelay is_prod = (if is_prod then 2000 else 1000)"

text \<open>
  \<^verbatim>\<open>Math.min(baseDelay * Math.pow(1.5, this.reconnectAttempts - 1) + Math.random() * 1000, 10000)\<close>,
  with \<open>rnd\<close> the result of \<^verbatim>\<open>Math.random()\<close> and \<open>n\<close> the attempt count after its increment.
  The power, the two products and the sum are each rounded to a double (\<^verbatim>\<open>Math.pow\<close>
  is taken to return the double nearest to the exact power); the minimum of two doubles
  is exact.
\<close>

definition reconnect_delay :: "bool \<Rightarrow> nat \<Rightarrow> real \<Rightarrow> real" where
  "reconnect_delay is_prod n rnd =
     min (fl64 (fl64 (baseDelay is_prod * fl64 ((3 / 2) ^ (n - 1))) + fl64 (rnd * 1000))) 10000"

definition attemptReconnect :: "real \<Rightarrow> client \<Rightarrow> client" where
  "attemptReconnect rnd c =
     (if reconnectAttempts c < maxReconnectAttempts c
      then c\<lparr>reconnectAttempts := reconnectAttempts c + 1,
             scheduled := scheduled c @
               [reconnect_delay (isProduction c) (reconnectAttempts c + 1) rnd]\<rparr>
      else signal ''reconnectFailed'' c)"

text \<open>The connection is lost \<open>length rnds\<close> times in a row, never opening in between.\<close>

fun attemptReconnects :: "real list \<Rightarrow> client \<Rightarrow> client" where
  "attemptReconnects [] c = c"
| "attemptReconnects (rnd # rnds) c = attemptReconnects rnds (attemptReconnect rnd c)"

definition stopKeepAlive :: "client \<Rightarrow> client" where
  "stopKeepAlive c = c\<lparr>pingInterval := None, pongTimeout := None\<rparr>"

definition startKeepAlive :: "client \<Rightarrow> client" where
  "startKeepAlive c =
     (if isProduction c then (stopKeepAlive c)\<lparr>pingInterval := Some 30000\<rparr> else c)"

text \<open>The callback of the ping interval.\<close>

definition ping_tick :: "client \<Rightarrow> client" where
  "ping_tick c =
     (if ws_is_open c then (ws_send Ping c)\<lparr>pongTimeout := Some 5000\<rparr> else c)"

text \<open>
  The callback of the pong timeout: \<^verbatim>\<open>this.ws.close()\<close>, after which the socket is
  closing (a socket that is already closed stays so).
\<close>

definition pong_timeout_fires :: "client \<Rightarrow> client" where
  "pong_timeout_fires c =
     (case ws c of None \<Rightarrow> c
      | Some i \<Rightarrow>
          (if i < length (sockets c) \<and> sockets c ! i \<noteq> CLOSED
           then c\<lparr>sockets := (sockets c)[i := CLOSING]\<rparr> else c))"

text \<open>The \<^verbatim>\<open>'pong'\<close> branch of \<^verbatim>\<open>onmessage\<close>.\<close>

definition pong_received :: "client \<Rightarrow> client" where
  "pong_received c = c\<lparr>pongTimeout := None\<rparr>"

text \<open>
  \<^verbatim>\<open>flushMessageQueue()\<close>: the loop shifts the head of the queue and sends it if the
  current socket is open.
\<close>

function flushMessageQueue :: "client \<Rightarrow> client" where
  "flushMessageQueue c =
     (if messageQueue c \<noteq> [] \<and> connected c
      then (let m = hd (messageQueue c);
                c1 = c\<lparr>messageQueue := tl (messageQueue c)\<rparr>
            in flushMessageQueue (if ws_is_open c1 then ws_send (Json m) c1 else c1))
      else c)"
  by pat_completeness auto
termination
  by (relation "measure (\<lambda>c. length (messageQueue c))")
     (auto simp: ws_send_def split: option.splits)

declare flushMessageQueue.simps [simp del]

text \<open>
  The \<^verbatim>\<open>onopen\<close> handler that \<open>connect\<close> installs on socket \<open>i\<close>; the browser has set
  the socket's state to open before it calls the handler.
\<close>

definition ws_onopen :: "nat \<Rightarrow> client \<Rightarrow> client" where
  "ws_onopen i c =
     startKeepAlive
       (signal ''connected''
          (flushMessageQueue
             (c\<lparr>sockets := (sockets c)[i := OPEN], connected := True,
                reconnectAttempts := 0\<rparr>)))"

definition ws_onclose :: "nat \<Rightarrow> real \<Rightarrow> client \<Rightarrow> client" where
  "ws_onclose i rnd c =
     attemptReconnect rnd
       (signal ''disconnected''
          (stopKeepAlive (c\<lparr>sockets := (sockets c)[i := CLOSED], connected := False\<rparr>)))"

text \<open>
  \<^verbatim>\<open>send(action, params, responseId)\<close>. \<open>fresh_rid\<close> is the generated correlation id,
  used when none is passed; \<open>fresh_pid\<close> and \<open>ctor_throws\<close> are for the \<open>connect\<close> it may
  start. The result is the client and the returned correlation id.
\<close>

definition send :: "string \<Rightarrow> string \<Rightarrow> string option \<Rightarrow> string \<Rightarrow> string \<Rightarrow> bool \<Rightarrow>
    client \<Rightarrow> client \<times> string" where
  "send act ps rid fresh_rid fresh_pid ctor_throws c =
     (let m = \<lparr>action = act, m_playerId = playerId c,
                responseId = (case rid of None \<Rightarrow> fresh_rid
                              | Some r \<Rightarrow> if r = [] then fresh_rid else r),
                params = ps\<rparr>
      in if connected c \<and> ws_is_open c then (ws_send (Json m) c, responseId m)
         else (let c1 = c\<lparr>messageQueue := messageQueue c @ [m]\<rparr>
               in (if \<not> connected c1 then connect fresh_pid ctor_throws c1 else c1,
                   responseId m)))"

subsection \<open>Dispatch to listeners\<close>
















subsection \<open>Example clients\<close>

text \<open>
  The module connects when it is loaded (\<open>loaded_client\<close>); a command sent before that
  socket has opened is queued and starts another connection (\<open>queued_client\<close>).
  \<open>production_client\<close> is a production build that was given a command before it ever
  connected.
\<close>

definition join_message :: message where
  "join_message =
     \<lparr>action = ''joinRoom'', m_playerId = Some ''player_a'', responseId = ''joinRoom_1'',
      params = ''ABCD''\<rparr>"

definition loaded_client :: client where
  "loaded_client = connect ''player_a'' False (new_client False)"

definition queued_client :: client where
  "queued_client =
     fst (send ''joinRoom'' ''ABCD'' None ''joinRoom_1'' ''player_b'' False loaded_client)"

definition production_client :: client where
  "production_client =
     fst (send ''joinRoom'' ''ABCD'' None ''joinRoom_1'' ''player_a'' False (new_client True))"

section \<open>The game page: session state\<close>

datatype cue = PlayEat | PlayPowerUp | PlayDeath | PlayWin | PlayStart

text \<open>
  The state and the refs of the \<^verbatim>\<open>Game\<close> component that the synchronisation code
  reads and writes: \<open>room\<close> and \<open>displayRoom\<close> (state), \<open>countdown\<close> (state),
  \<^verbatim>\<open>isInWaitingLobbyRef\<close>, \<^verbatim>\<open>pendingRoomUpdateRef\<close>, \<^verbatim>\<open>lastUpdateTimeRef\<close>,
  \<^verbatim>\<open>lastTickRef\<close>, \<^verbatim>\<open>directionQueueRef\<close>, the frame rate shown, and the sound cues
  played so far. Readings of \<^verbatim>\<open>performance.now()\<close> are reals, readings of
  \<^verbatim>\<open>Date.now()\<close> integers (milliseconds).
\<close>

record game =
  room :: "room option"
  displayRoom :: "room option"
  countdown :: "int option"
  isInWaitingLobby :: bool
  pendingRoomUpdate :: "room option"
  lastUpdateTime :: real
  lastTick :: int
  directionQueue :: "(int \<times> int) option"
  fps :: nat
  cues :: "cue list"

text \<open>The payload of a \<^verbatim>\<open>gameUpdate\<close> broadcast.\<close>

record game_update =
  u_room :: "room option"
  foodEaten :: bool
  powerUpCollected :: bool
  eliminated :: "string list option"

definition setRoomWithInterpolation :: "real \<Rightarrow> room \<Rightarrow> game \<Rightarrow> game" where
  "setRoomWithInterpolation now nextRoom g =
     (let g1 = g\<lparr>room := Some nextRoom\<rparr>
      in if now - lastUpdateTime g \<ge> 16
         then g1\<lparr>displayRoom := Some nextRoom, lastUpdateTime := now,
                 pendingRoomUpdate := None\<rparr>
         else g1\<lparr>pendingRoomUpdate := Some nextRoom\<rparr>)"

definition handleRoomUpdate :: "real \<Rightarrow> room option \<Rightarrow> game \<Rightarrow> game" where
  "handleRoomUpdate now updatedRoom g =
     (case updatedRoom of None \<Rightarrow> g
      | Some r \<Rightarrow>
          if isInWaitingLobby g
          then (if status r = ''waiting'' then g\<lparr>room := Some r\<rparr> else g)
          else setRoomWithInterpolation now r g)"

definition handleGameUpdate :: "real \<Rightarrow> game_update \<Rightarrow> game \<Rightarrow> game" where
  "handleGameUpdate now update g =
     (case u_room update of None \<Rightarrow> g
      | Some r \<Rightarrow>
          if isInWaitingLobby g then g
          else (let g1 = setRoomWithInterpolation now r g
                in g1\<lparr>cues := cues g1
                     @ (if foodEaten update then [PlayEat] else [])
                     @ (if powerUpCollected update then [PlayPowerUp] else [])
                     @ (case eliminated update of None \<Rightarrow> []
                        | Some es \<Rightarrow> if 0 < length es then [PlayDeath] else [])
                     @ (if status r = ''ended'' then [PlayWin] else [])\<rparr>))"

text \<open>The two broadcasts that carry an authoritative room, with their arrival times.\<close>

datatype broadcast = RoomUpdate "room option" | GameUpdate game_update

fun deliver :: "real \<Rightarrow> broadcast \<Rightarrow> game \<Rightarrow> game" where
  "deliver now (RoomUpdate r) g = handleRoomUpdate now r g"
| "deliver now (GameUpdate u) g = handleGameUpdate now u g"

fun deliver_all :: "(real \<times> broadcast) list \<Rightarrow> game \<Rightarrow> game" where
  "deliver_all [] g = g"
| "deliver_all ((now, b) # bs) g = deliver_all bs (deliver now b g)"

text \<open>The rooms of the \<^verbatim>\<open>roomUpdate\<close> broadcasts of a sequence whose status is waiting.\<close>

fun waiting_updates :: "(real \<times> broadcast) list \<Rightarrow> room list" where
  "waiting_updates [] = []"
| "waiting_updates ((now, RoomUpdate (Some r)) # bs) =
     (if status r = ''waiting'' then r # waiting_updates bs else waiting_updates bs)"
| "waiting_updates (b # bs) = waiting_updates bs"

text \<open>The status a broadcast carries, if it carries a room.\<close>

fun broadcast_status :: "broadcast \<Rightarrow> string option" where
  "broadcast_status (RoomUpdate r) = map_option status r"
| "broadcast_status (GameUpdate u) = map_option status (u_room u)"

subsection \<open>Chat and typing broadcasts\<close>

text \<open>
  The handlers are created inside the effect that registers them, and read the \<open>room\<close>
  and \<open>displayRoom\<close> of the render in which that effect last ran. Its dependency list is
  \<^verbatim>\<open>[room?.room_code, getEffectiveTickRate, countdown]\<close>, of which
  \<^verbatim>\<open>getEffectiveTickRate\<close> never changes: the handlers are created anew when the room
  code or the countdown changes, and not when another field of the room does.
\<close>

record captured =
  c_room :: "room option"
  c_displayRoom :: "room option"

text \<open>\<^verbatim>\<open>a || b\<close> on fields that are absent or an array.\<close>

definition or_else :: "'a option \<Rightarrow> 'a option \<Rightarrow> 'a option" where
  "or_else a b = (case a of None \<Rightarrow> b | Some x \<Rightarrow> Some x)"

definition handleChatMessage :: "captured \<Rightarrow> room option \<Rightarrow> game \<Rightarrow> game" where
  "handleChatMessage cl updatedRoom g =
     (case updatedRoom of None \<Rightarrow> g
      | Some u \<Rightarrow>
          (case c_room cl of None \<Rightarrow> g
           | Some r \<Rightarrow>
               (let merged = r\<lparr>chat := or_else (chat u) (chat r),
                                gameChat := or_else (gameChat u) (gameChat r),
                                typing := or_else (typing u) (typing r)\<rparr>
                in if status merged = status r
                   then (let g1 = g\<lparr>room := Some merged\<rparr>
                         in case c_displayRoom cl of None \<Rightarrow> g1
                            | Some d \<Rightarrow>
                                g1\<lparr>displayRoom :=
                                     Some (d\<lparr>chat := chat merged, gameChat := gameChat merged,
                                              typing := typing merged\<rparr>)\<rparr>)
                   else g)))"

definition handleTypingUpdate :: "captured \<Rightarrow> room option \<Rightarrow> game \<Rightarrow> game" where
  "handleTypingUpdate cl updatedRoom g =
     (case updatedRoom of None \<Rightarrow> g
      | Some u \<Rightarrow>
          (case c_room cl of None \<Rightarrow> g
           | Some r \<Rightarrow>
               (let merged = r\<lparr>typing := or_else (typing u) (typing r)\<rparr>
                in if status merged = status r
                   then (let g1 = g\<lparr>room := Some merged\<rparr>
                         in case c_displayRoom cl of None \<Rightarrow> g1
                            | Some d \<Rightarrow>
                                g1\<lparr>displayRoom := Some (d\<lparr>typing := typing merged\<rparr>)\<rparr>)
                   else g)))"

text \<open>
  The component with its registered handlers: \<open>handlers\<close> is what the listeners effect
  captured when it last ran (\<open>None\<close> when it returned early because there was no room),
  \<open>deps\<close> the dependency values of that run.
\<close>

record page =
  state :: game
  handlers :: "captured option"
  deps :: "string option \<times> int option"

definition listener_deps :: "game \<Rightarrow> string option \<times> int option" where
  "listener_deps g = (map_option room_code (room g), countdown g)"

definition run_listeners_effect :: "game \<Rightarrow> captured option" where
  "run_listeners_effect g =
     (case room g of None \<Rightarrow> None
      | Some r \<Rightarrow> Some \<lparr>c_room = Some r, c_displayRoom = displayRoom g\<rparr>)"

definition mount :: "game \<Rightarrow> page" where
  "mount g = \<lparr>state = g, handlers = run_listeners_effect g, deps = listener_deps g\<rparr>"

text \<open>A render after the state became \<open>g'\<close>: the effect runs again only if a dependency changed.\<close>

definition rerender :: "game \<Rightarrow> page \<Rightarrow> page" where
  "rerender g' p = (if listener_deps g' = deps p then p\<lparr>state := g'\<rparr> else mount g')"

definition on_roomUpdate :: "real \<Rightarrow> room option \<Rightarrow> page \<Rightarrow> page" where
  "on_roomUpdate now u p =
     (case handlers p of None \<Rightarrow> p
      | Some cl \<Rightarrow> rerender (handleRoomUpdate now u (state p)) p)"

definition on_chatMessage :: "room option \<Rightarrow> page \<Rightarrow> page" where
  "on_chatMessage u p =
     (case handlers p of None \<Rightarrow> p
      | Some cl \<Rightarrow> rerender (handleChatMessage cl u (state p)) p)"

definition on_typingUpdate :: "room option \<Rightarrow> page \<Rightarrow> page" where
  "on_typingUpdate u p =
     (case handlers p of None \<Rightarrow> p
      | Some cl \<Rightarrow> rerender (handleTypingUpdate cl u (state p)) p)"

subsection \<open>Render pacer\<close>

text \<open>The variables of the render loop's effect.\<close>

record render_locals =
  frameCount :: nat
  lastFpsUpdate :: real
  lastPendingUpdateCheck :: real

definition renderLoop :: "real \<Rightarrow> render_locals \<times> game \<Rightarrow> render_locals \<times> game" where
  "renderLoop currentTime lg =
     (let loc1 = (fst lg)\<lparr>frameCount := frameCount (fst lg) + 1\<rparr>;
          g = snd lg;
          flushed =
            (if pendingRoomUpdate g \<noteq> None \<and> currentTime - lastPendingUpdateCheck loc1 \<ge> 16
             then (loc1\<lparr>lastPendingUpdateCheck := currentTime\<rparr>,
                   g\<lparr>displayRoom := pendingRoomUpdate g, lastUpdateTime := currentTime,
                     pendingRoomUpdate := None\<rparr>)
             else (loc1, g))
      in if currentTime - lastFpsUpdate (fst flushed) \<ge> 1000
         then ((fst flushed)\<lparr>frameCount := 0, lastFpsUpdate := currentTime\<rparr>,
               (snd flushed)\<lparr>fps := frameCount (fst flushed)\<rparr>)
         else flushed)"

text \<open>A sequence of authoritative updates, each with the time it arrives at.\<close>

fun apply_updates :: "(real \<times> room) list \<Rightarrow> game \<Rightarrow> game" where
  "apply_updates [] g = g"
| "apply_updates ((now, r) # us) g = apply_updates us (setRoomWithInterpolation now r g)"

subsection \<open>Tick scheduler\<close>

definition TICK_RATE :: "bool \<Rightarrow> int" where
  "TICK_RATE is_prod = (if is_prod then 200 else 150)"

text \<open>
  A request leaves on the WebSocket, or through \<^verbatim>\<open>callServer\<close> when
  \<^verbatim>\<open>wsClient.send\<close> throws. It carries the action, the room code and, for a direction
  update, the direction.
\<close>

datatype channel = ViaWebSocket | ViaServer

datatype request = Request channel string string "(int \<times> int) option"

fun is_tick :: "request \<Rightarrow> bool" where
  "is_tick (Request ch a rc d) = (a = ''tick'')"

text \<open>Truthiness of \<^verbatim>\<open>room.host_id\<close>: neither absent nor the empty string.\<close>

definition truthy_id :: "string option \<Rightarrow> bool" where
  "truthy_id h = (case h of None \<Rightarrow> False | Some s \<Rightarrow> s \<noteq> [])"

text \<open>
  \<^verbatim>\<open>gameTick\<close> of the participant \<open>pid\<close> at the clock reading \<open>now\<close>; \<open>dir_throws\<close>
  and \<open>tick_throws\<close> say whether the two calls of \<^verbatim>\<open>wsClient.send\<close> throw. The result
  is the new state and the requests sent, in order.
\<close>

definition gameTick :: "bool \<Rightarrow> string \<Rightarrow> int \<Rightarrow> bool \<Rightarrow> bool \<Rightarrow> game \<Rightarrow> game \<times> request list" where
  "gameTick is_prod pid now dir_throws tick_throws g =
     (case room g of None \<Rightarrow> (g, [])
      | Some r \<Rightarrow>
          if status r \<noteq> ''playing'' then (g, [])
          else if (case countdown g of None \<Rightarrow> False | Some n \<Rightarrow> 0 < n) then (g, [])
          else if truthy_id (host_id r) \<and> host_id r \<noteq> Some pid then (g, [])
          else if now - lastTick g < TICK_RATE is_prod then (g, [])
          else (g\<lparr>lastTick := now, directionQueue := None\<rparr>,
                (case directionQueue g of None \<Rightarrow> []
                 | Some d \<Rightarrow>
                     [Request (if dir_throws then ViaServer else ViaWebSocket)
                        ''updateDirection'' (room_code r) (Some d)])
                @ [Request (if tick_throws then ViaServer else ViaWebSocket)
                     ''tick'' (room_code r) None]))"

text \<open>
  The gate of the game loop's effect: whether it starts the animation-frame loop that
  calls \<open>gameTick\<close>, for the \<open>room\<close> and \<open>countdown\<close> of a render.
\<close>

definition game_loop_starts :: "room option \<Rightarrow> int option \<Rightarrow> bool" where
  "game_loop_starts r cd =
     (if map_option status r \<noteq> Some ''playing'' then False
      else if (case cd of None \<Rightarrow> False | Some n \<Rightarrow> 0 < n) then False
      else True)"

text \<open>
  The writers of the \<open>countdown\<close> state. Starting a game sets it to 5, leaving or failing
  to start sets it to null, and the callback of the one-second interval decrements its
  own counter, stores it, and stores null as well once the counter has reached zero.
  \<open>countdown_timer\<close> is that callback: its new counter and its \<^verbatim>\<open>setCountdown\<close>
  calls, in order.
\<close>

definition countdown_timer :: "int \<Rightarrow> int \<times> int option list" where
  "countdown_timer count =
     (let c = count - 1 in (c, [Some c] @ (if c \<le> 0 then [None] else [])))"

text \<open>
  The state updates made by one callback are applied together, and the render that
  follows sees the last of them.
\<close>

definition commit :: "'a list \<Rightarrow> 'a \<Rightarrow> 'a" where
  "commit writes v = (if writes = [] then v else last writes)"

text \<open>
  \<open>TimerFires count\<close> is a call of the interval callback whose counter is \<open>count\<close>,
  whatever that counter is and whichever interval it belongs to.
\<close>

datatype countdown_event = StartCountdown | TimerFires int | ClearCountdown

fun countdown_writes :: "countdown_event \<Rightarrow> int option list" where
  "countdown_writes StartCountdown = [Some 5]"
| "countdown_writes (TimerFires count) = snd (countdown_timer count)"
| "countdown_writes ClearCountdown = [None]"

text \<open>The countdown a render sees after a sequence of such events.\<close>

fun countdown_after :: "countdown_event list \<Rightarrow> int option \<Rightarrow> int option" where
  "countdown_after [] cd = cd"
| "countdown_after (e # es) cd = countdown_after es (commit (countdown_writes e) cd)"

text \<open>
  One call of \<open>gameTick\<close> by the loop: the clock reading, whether the sends throw, and
  the component's state at that moment. Between two calls anything may change the state;
  only \<^verbatim>\<open>lastTickRef\<close> is written by \<open>gameTick\<close> alone.
\<close>

record poll =
  p_now :: int
  p_dir_throws :: bool
  p_tick_throws :: bool
  p_game :: game

text \<open>The requests of a run of calls, each with the clock reading of its call.\<close>

fun run_polls :: "bool \<Rightarrow> string \<Rightarrow> int \<Rightarrow> poll list \<Rightarrow> (int \<times> request) list" where
  "run_polls is_prod pid lastT [] = []"
| "run_polls is_prod pid lastT (p # ps) =
     (let res = gameTick is_prod pid (p_now p) (p_dir_throws p) (p_tick_throws p)
                  ((p_game p)\<lparr>lastTick := lastT\<rparr>)
      in map (Pair (p_now p)) (snd res) @ run_polls is_prod pid (lastTick (fst res)) ps)"

definition tick_times :: "(int \<times> request) list \<Rightarrow> int list" where
  "tick_times rs = map fst (filter (\<lambda>tq. is_tick (snd tq)) rs)"

text \<open>Consecutive elements are at least \<open>d\<close> apart.\<close>

fun spaced :: "int \<Rightarrow> int list \<Rightarrow> bool" where
  "spaced d [] = True"
| "spaced d [t] = True"
| "spaced d (t # u # ts) = (d \<le> u - t \<and> spaced d (u # ts))"

subsection \<open>Example states\<close>

definition playing_room :: room where
  "playing_room =
     \<lparr>room_code = ''ABCD'', status = ''playing'', host_id = Some ''p1'',
      players = None, chat = None, gameChat = None, typing = None, board = 0\<rparr>"

definition initial_game :: game where
  "initial_game =
     \<lparr>room = None, displayRoom = None, countdown = None, isInWaitingLobby = False,
      pendingRoomUpdate = None, lastUpdateTime = 0, lastTick = 0, directionQueue = None,
      fps = 0, cues = []\<rparr>"

definition hostless_room :: room where
  "hostless_room = playing_room\<lparr>host_id := None\<rparr>"

definition paused_room :: room where
  "paused_room = playing_room\<lparr>status := ''paused''\<rparr>"

definition chat_frame :: room where
  "chat_frame = paused_room\<lparr>chat := Some [''hi'']\<rparr>"

definition playing_game :: game where
  "playing_game = initial_game\<lparr>room := Some playing_room, displayRoom := Some playing_room\<rparr>"

definition fast_polls :: "poll list" where
  "fast_polls =
     map (\<lambda>t. \<lparr>p_now = t, p_dir_throws = False, p_tick_throws = False, p_game = playing_game\<rparr>)
       [1000, 1050, 1100, 1150]"

definition waiting_game :: game where
  "waiting_game =
     initial_game\<lparr>room := Some (playing_room\<lparr>status := ''ended''\<rparr>),
                    isInWaitingLobby := True\<rparr>"

definition stale_broadcasts :: "(real \<times> broadcast) list" where
  "stale_broadcasts =
     [(10, RoomUpdate (Some playing_room)),
      (20, GameUpdate \<lparr>u_room = Some lobby_room, foodEaten = True,
                       powerUpCollected = False, eliminated = None\<rparr>),
      (30, RoomUpdate (Some lobby_room)),
      (40, RoomUpdate (Some (playing_room\<lparr>status := ''ended''\<rparr>)))]"

definition update_storm :: "(real \<times> room) list" where
  "update_storm =
     [(100, playing_room), (105, playing_room\<lparr>board := 1\<rparr>),
      (110, playing_room\<lparr>board := 2\<rparr>)]"

definition fresh_locals :: render_locals where
  "fresh_locals = \<lparr>frameCount = 0, lastFpsUpdate = 0, lastPendingUpdateCheck = 0\<rparr>"





text \<open>A countdown that has just started, and one that has run to its end.\<close>

definition started_countdown :: "countdown_event list" where
  "started_countdown = [StartCountdown, TimerFires 5]"

definition finished_countdown :: "countdown_event list" where
  "finished_countdown =
     [StartCountdown, TimerFires 5, TimerFires 4, TimerFires 3, TimerFires 2, TimerFires 1]"

section \<open>Properties of the lobby\<close>

lemma guestPlayers_Some:
  "players rm = Some ps \<Longrightarrow>
   guestPlayers (Some rm) = filter (\<lambda>p. \<not> isBot p \<and> Some (p_id p) \<noteq> host_id rm) ps"
  by (simp add: guestPlayers_def)

lemma allReady_Some:
  "players rm = Some ps \<Longrightarrow>
   allReady (Some rm) =
     (\<forall>p \<in> set ps. \<not> isBot p \<and> Some (p_id p) \<noteq> host_id rm \<longrightarrow> ready p = Some True)"
  by (auto simp: allReady_def guestPlayers_Some list_all_iff filter_empty_conv)

text \<open>
  C10. The start action is invoked by a click exactly when the local participant is the
  host, the room has at least two participants, every participant that is neither a bot
  nor the host has \<open>ready\<close> equal to true, and a start handler was provided; in every other
  case the click invokes nothing (at most a console warning is printed).
\<close>

theorem C10_start_only_when_allowed:
  "(CallOnStart \<in> set (click_start r pid onStart) \<longleftrightarrow>
      onStart \<and>
      (\<exists>rm ps. r = Some rm \<and> host_id rm = Some pid \<and> players rm = Some ps \<and>
         2 \<le> length ps \<and>
         (\<forall>p \<in> set ps. \<not> isBot p \<and> p_id p \<noteq> pid \<longrightarrow> ready p = Some True)))
   \<and> (CallOnStart \<in> set (start_onClick r onStart) \<longrightarrow> canStart r \<and> allReady r)
   \<and> (CallOnStart \<notin> set (click_start r pid onStart) \<longrightarrow>
        click_start r pid onStart \<in> {[], [Log, ErrorNoHandler]})"
proof (intro conjI)
  show "CallOnStart \<in> set (click_start r pid onStart) \<longleftrightarrow>
      onStart \<and>
      (\<exists>rm ps. r = Some rm \<and> host_id rm = Some pid \<and> players rm = Some ps \<and>
         2 \<le> length ps \<and>
         (\<forall>p \<in> set ps. \<not> isBot p \<and> p_id p \<noteq> pid \<longrightarrow> ready p = Some True))"
  proof (cases r)
    case None
    then show ?thesis
      by (simp add: click_start_def lobby_control_def isHost_def)
  next
    case (Some rm)
    show ?thesis
    proof (cases "players rm")
      case None
      with Some show ?thesis
        by (simp add: click_start_def lobby_control_def isHost_def canStart_def
            split: option.splits)
    next
      case (Some ps)
      with \<open>r = Some rm\<close> show ?thesis
        by (auto simp: click_start_def lobby_control_def isHost_def canStart_def
            start_onClick_def allReady_Some split: option.splits)
    qed
  qed
next
  show "CallOnStart \<in> set (start_onClick r onStart) \<longrightarrow> canStart r \<and> allReady r"
    by (simp add: start_onClick_def split: if_splits)
next
  show "CallOnStart \<notin> set (click_start r pid onStart) \<longrightarrow>
        click_start r pid onStart \<in> {[], [Log, ErrorNoHandler]}"
    by (auto simp: click_start_def start_onClick_def lobby_control_def
        split: control.splits if_splits)
qed

theorem C10_start_only_when_allowed_witness:
  "CallOnStart \<in> set (click_start (Some lobby_room) ''p1'' True)
   \<and> click_start (Some lobby_room) ''p2'' True = []
   \<and> click_start (Some (lobby_room\<lparr>players := Some []\<rparr>)) ''p1'' True = []"
proof -
  have a: "click_start (Some lobby_room) ''p1'' True = [Log, CallOnStart]"
    by (simp add: click_start_def lobby_control_def isHost_def canStart_def
        start_onClick_def allReady_def guestPlayers_def lobby_room_def)
  have b: "click_start (Some lobby_room) ''p2'' True = []"
    by (simp add: click_start_def lobby_control_def isHost_def lobby_room_def)
  have c: "click_start (Some (lobby_room\<lparr>players := Some []\<rparr>)) ''p1'' True = []"
    by (simp add: click_start_def lobby_control_def isHost_def canStart_def lobby_room_def)
  from C10_start_only_when_allowed [of "Some lobby_room" "''p1''" True] a b c
  show ?thesis by simp
qed

section \<open>Properties of the dispatch to listeners\<close>








section \<open>Properties of the session state\<close>

lemma deliver_flagged:
  "isInWaitingLobby g \<Longrightarrow>
   deliver now b g =
     (if broadcast_status b = Some ''waiting'' \<and> (\<exists>r. b = RoomUpdate r)
      then g\<lparr>room := (case b of RoomUpdate r \<Rightarrow> r | GameUpdate u \<Rightarrow> None)\<rparr> else g)"
  by (cases b) (auto simp: handleRoomUpdate_def handleGameUpdate_def split: option.splits)

lemma deliver_all_flagged:
  "isInWaitingLobby g \<Longrightarrow>
   deliver_all bs g =
     (if waiting_updates bs = [] then g else g\<lparr>room := Some (last (waiting_updates bs))\<rparr>)"
proof (induction bs arbitrary: g)
  case Nil
  show ?case by simp
next
  case (Cons nb bs)
  obtain now b where nb: "nb = (now, b)" by (cases nb)
  show ?case
  proof (cases "\<exists>r. b = RoomUpdate (Some r) \<and> status r = ''waiting''")
    case True
    then obtain r where b: "b = RoomUpdate (Some r)" and w: "status r = ''waiting''"
      by blast
    have "isInWaitingLobby (g\<lparr>room := Some r\<rparr>)" using Cons.prems by simp
    from Cons.IH [OF this] Cons.prems show ?thesis
      by (simp add: nb b w handleRoomUpdate_def)
  next
    case False
    have d: "deliver now b g = g"
      using False Cons.prems
      by (cases b) (auto simp: handleRoomUpdate_def handleGameUpdate_def split: option.splits)
    have wu: "waiting_updates ((now, b) # bs) = waiting_updates bs"
    proof (cases b)
      case (RoomUpdate x)
      with False show ?thesis by (cases x) auto
    next
      case (GameUpdate u)
      then show ?thesis by simp
    qed
    from Cons.IH [OF Cons.prems] show ?thesis
      by (simp only: nb deliver_all.simps d wu)
  qed
qed

text \<open>
  C1. While the waiting-lobby intent flag is set, a sequence of \<^verbatim>\<open>roomUpdate\<close> and
  \<^verbatim>\<open>gameUpdate\<close> broadcasts changes the session state only through the room updates
  whose status is waiting: the flag stays set, the stored room ends as the last such update
  (or as it was, if there is none) and nothing else changes; a broadcast with any other
  status leaves the state as it is, and a broadcast that does change the state is a room
  update with status waiting.
\<close>

theorem C1_waiting_intent_filters_updates:
  assumes "isInWaitingLobby g"
  shows "deliver_all bs g =
           (if waiting_updates bs = [] then g
            else g\<lparr>room := Some (last (waiting_updates bs))\<rparr>)
         \<and> isInWaitingLobby (deliver_all bs g)
         \<and> (broadcast_status b \<noteq> Some ''waiting'' \<longrightarrow> deliver now b g = g)
         \<and> (deliver now b g \<noteq> g \<longrightarrow>
              (\<exists>r. b = RoomUpdate (Some r) \<and> status r = ''waiting'' \<and>
                   deliver now b g = g\<lparr>room := Some r\<rparr>))"
proof (intro conjI)
  show "deliver_all bs g =
           (if waiting_updates bs = [] then g
            else g\<lparr>room := Some (last (waiting_updates bs))\<rparr>)"
    by (rule deliver_all_flagged [OF assms])
  then show "isInWaitingLobby (deliver_all bs g)"
    using assms by simp
  show "broadcast_status b \<noteq> Some ''waiting'' \<longrightarrow> deliver now b g = g"
    by (simp add: deliver_flagged [OF assms])
  show "deliver now b g \<noteq> g \<longrightarrow>
              (\<exists>r. b = RoomUpdate (Some r) \<and> status r = ''waiting'' \<and>
                   deliver now b g = g\<lparr>room := Some r\<rparr>)"
    using assms
    by (cases b) (auto simp: handleRoomUpdate_def handleGameUpdate_def split: option.splits)
qed

theorem C1_waiting_intent_filters_updates_witness:
  "isInWaitingLobby waiting_game
   \<and> deliver_all stale_broadcasts waiting_game = waiting_game\<lparr>room := Some lobby_room\<rparr>
   \<and> deliver 10 (RoomUpdate (Some playing_room)) waiting_game = waiting_game"
proof -
  have flag: "isInWaitingLobby waiting_game"
    by (simp add: waiting_game_def initial_game_def)
  have st: "status lobby_room = ''waiting''" "status playing_room \<noteq> ''waiting''"
    by (simp_all add: lobby_room_def playing_room_def)
  have w: "waiting_updates stale_broadcasts = [lobby_room]"
    by (simp add: stale_broadcasts_def st)
  from C1_waiting_intent_filters_updates
         [OF flag, of stale_broadcasts "RoomUpdate (Some playing_room)" 10]
  show ?thesis by (simp add: flag w st)
qed

section \<open>Properties of the render pacer\<close>

lemma apply_updates_snoc:
  "apply_updates (us @ [(now, r)]) g = setRoomWithInterpolation now r (apply_updates us g)"
  by (induction us arbitrary: g) auto

lemma setRoomWithInterpolation_latest:
  "room (setRoomWithInterpolation now r g) = Some r \<and>
   (pendingRoomUpdate (setRoomWithInterpolation now r g) = Some r \<or>
    pendingRoomUpdate (setRoomWithInterpolation now r g) = None \<and>
    displayRoom (setRoomWithInterpolation now r g) = Some r)"
  by (simp add: setRoomWithInterpolation_def Let_def)

lemma apply_updates_latest:
  "us \<noteq> [] \<Longrightarrow>
   room (apply_updates us g) = Some (snd (last us)) \<and>
   (pendingRoomUpdate (apply_updates us g) = Some (snd (last us)) \<or>
    pendingRoomUpdate (apply_updates us g) = None \<and>
    displayRoom (apply_updates us g) = Some (snd (last us)))"
proof (induction us rule: rev_induct)
  case Nil
  then show ?case by simp
next
  case (snoc u us)
  obtain now r where u: "u = (now, r)" by (cases u)
  show ?case
    using setRoomWithInterpolation_latest [of now r "apply_updates us g"]
    by (simp add: u apply_updates_snoc)
qed

lemma renderLoop_flush:
  "16 \<le> t - lastPendingUpdateCheck loc \<Longrightarrow>
   pendingRoomUpdate g = Some r \<Longrightarrow>
   displayRoom (snd (renderLoop t (loc, g))) = Some r \<and>
   pendingRoomUpdate (snd (renderLoop t (loc, g))) = None"
  by (simp add: renderLoop_def Let_def)

lemma renderLoop_idle:
  "pendingRoomUpdate g = None \<Longrightarrow>
   displayRoom (snd (renderLoop t (loc, g))) = displayRoom g \<and>
   pendingRoomUpdate (snd (renderLoop t (loc, g))) = None"
  by (simp add: renderLoop_def Let_def)

lemma apply_updates_buffered:
  "us \<noteq> [] \<Longrightarrow> list_all (\<lambda>u. fst u - lastUpdateTime g < 16) us \<Longrightarrow>
   apply_updates us g =
     g\<lparr>room := Some (snd (last us)), pendingRoomUpdate := Some (snd (last us))\<rparr>"
proof (induction us arbitrary: g)
  case Nil
  then show ?case by simp
next
  case (Cons u us)
  obtain now r where u: "u = (now, r)" by (cases u)
  have one: "setRoomWithInterpolation now r g = g\<lparr>room := Some r, pendingRoomUpdate := Some r\<rparr>"
    using Cons.prems(2) by (simp add: u setRoomWithInterpolation_def Let_def)
  show ?case
  proof (cases "us = []")
    case True
    then show ?thesis by (simp add: u one)
  next
    case False
    have "list_all (\<lambda>u. fst u - lastUpdateTime (g\<lparr>room := Some r, pendingRoomUpdate := Some r\<rparr>) < 16) us"
      using Cons.prems(2) by simp
    from Cons.IH [OF False this] False show ?thesis
      by (simp add: u one)
  qed
qed

text \<open>
  C3. After any non-empty sequence of authoritative updates the pacer holds at most one
  pending snapshot, and it is the last update of the sequence (an earlier pending one was
  overwritten); otherwise nothing is pending and the last update is already displayed.
  A render frame that flushes (at least 16 ms after the previous flush) leaves exactly
  the last update in the display snapshot and the buffer empty. When all updates arrive
  within 16 ms of the last displayed one, none of them is displayed before the flush and
  the single slot holds the last one, whatever the length of the sequence.
\<close>

theorem C3_render_pacer_latest_wins:
  assumes "us \<noteq> []"
  shows "room (apply_updates us g) = Some (snd (last us))
    \<and> (pendingRoomUpdate (apply_updates us g) = Some (snd (last us)) \<or>
        pendingRoomUpdate (apply_updates us g) = None \<and>
        displayRoom (apply_updates us g) = Some (snd (last us)))
    \<and> (16 \<le> t - lastPendingUpdateCheck loc \<longrightarrow>
         displayRoom (snd (renderLoop t (loc, apply_updates us g))) = Some (snd (last us)) \<and>
         pendingRoomUpdate (snd (renderLoop t (loc, apply_updates us g))) = None)
    \<and> (list_all (\<lambda>u. fst u - lastUpdateTime g < 16) us \<longrightarrow>
         displayRoom (apply_updates us g) = displayRoom g \<and>
         pendingRoomUpdate (apply_updates us g) = Some (snd (last us)))"
proof -
  let ?g = "apply_updates us g"
  note latest = apply_updates_latest [OF assms, of g]
  have flush: "16 \<le> t - lastPendingUpdateCheck loc \<longrightarrow>
         displayRoom (snd (renderLoop t (loc, ?g))) = Some (snd (last us)) \<and>
         pendingRoomUpdate (snd (renderLoop t (loc, ?g))) = None"
  proof
    assume t: "16 \<le> t - lastPendingUpdateCheck loc"
    show "displayRoom (snd (renderLoop t (loc, ?g))) = Some (snd (last us)) \<and>
         pendingRoomUpdate (snd (renderLoop t (loc, ?g))) = None"
    proof (cases "pendingRoomUpdate ?g")
      case None
      with latest have "displayRoom ?g = Some (snd (last us))" by simp
      with renderLoop_idle [OF None, of t loc] show ?thesis by simp
    next
      case (Some r)
      with latest have "r = snd (last us)" by simp
      with renderLoop_flush [OF t Some] show ?thesis by simp
    qed
  qed
  have buffered: "list_all (\<lambda>u. fst u - lastUpdateTime g < 16) us \<longrightarrow>
         displayRoom ?g = displayRoom g \<and> pendingRoomUpdate ?g = Some (snd (last us))"
    by (simp add: apply_updates_buffered [OF assms])
  from latest flush buffered show ?thesis by blast
qed


theorem C3_render_pacer_latest_wins_witness:
  "update_storm \<noteq> []
   \<and> pendingRoomUpdate (apply_updates update_storm initial_game) =
       Some (playing_room\<lparr>board := 2\<rparr>)
   \<and> displayRoom (snd (renderLoop 116 (fresh_locals, apply_updates update_storm initial_game))) =
       Some (playing_room\<lparr>board := 2\<rparr>)
   \<and> pendingRoomUpdate (snd (renderLoop 116 (fresh_locals, apply_updates update_storm initial_game))) =
       None"
proof -
  have ne: "update_storm \<noteq> []" by (simp add: update_storm_def)
  have l: "snd (last update_storm) = playing_room\<lparr>board := 2\<rparr>"
    by (simp add: update_storm_def)
  have p: "pendingRoomUpdate (apply_updates update_storm initial_game) =
       Some (playing_room\<lparr>board := 2\<rparr>)"
    by (simp add: update_storm_def initial_game_def setRoomWithInterpolation_def Let_def)
  have t: "(16::real) \<le> 116 - lastPendingUpdateCheck fresh_locals"
    by (simp add: fresh_locals_def)
  from C3_render_pacer_latest_wins [OF ne, of initial_game 116 fresh_locals] t
  show ?thesis by (simp add: ne l p)
qed

section \<open>Properties of the tick scheduler\<close>

lemma gameTick_cases:
  "(snd (gameTick is_prod pid now dt tt g) = [] \<and>
    lastTick (fst (gameTick is_prod pid now dt tt g)) = lastTick g) \<or>
   (TICK_RATE is_prod \<le> now - lastTick g \<and>
    lastTick (fst (gameTick is_prod pid now dt tt g)) = now \<and>
    length (filter is_tick (snd (gameTick is_prod pid now dt tt g))) = 1)"
  by (auto simp: gameTick_def split: option.splits)

lemma spaced_run_polls:
  "spaced (TICK_RATE is_prod) (lastT # tick_times (run_polls is_prod pid lastT ps))"
proof (induction ps arbitrary: lastT)
  case Nil
  show ?case by (simp add: tick_times_def)
next
  case (Cons p ps)
  let ?g = "(p_game p)\<lparr>lastTick := lastT\<rparr>"
  let ?res = "gameTick is_prod pid (p_now p) (p_dir_throws p) (p_tick_throws p) ?g"
  have tt: "tick_times (run_polls is_prod pid lastT (p # ps)) =
      replicate (length (filter is_tick (snd ?res))) (p_now p)
      @ tick_times (run_polls is_prod pid (lastTick (fst ?res)) ps)"
    by (simp add: tick_times_def Let_def filter_map o_def map_replicate_const)
  note run_polls.simps(2) [simp del]
  from gameTick_cases [of is_prod pid "p_now p" "p_dir_throws p" "p_tick_throws p" ?g]
  show ?case
  proof
    assume a: "snd ?res = [] \<and> lastTick (fst ?res) = lastTick ?g"
    then have "tick_times (run_polls is_prod pid lastT (p # ps)) =
        tick_times (run_polls is_prod pid lastT ps)"
      by (simp add: tt)
    then show ?thesis using Cons.IH [of lastT] by simp
  next
    assume b: "TICK_RATE is_prod \<le> p_now p - lastTick ?g \<and> lastTick (fst ?res) = p_now p \<and>
      length (filter is_tick (snd ?res)) = 1"
    then have "tick_times (run_polls is_prod pid lastT (p # ps)) =
        p_now p # tick_times (run_polls is_prod pid (p_now p) ps)"
      by (simp add: tt)
    then show ?thesis using Cons.IH [of "p_now p"] b by simp
  qed
qed

lemma spaced_tail: "spaced d (t # ts) \<Longrightarrow> spaced d ts"
  by (cases ts) auto

lemma spaced_later: "spaced d (t # ts) \<Longrightarrow> 0 \<le> d \<Longrightarrow> u \<in> set ts \<Longrightarrow> t + d \<le> u"
proof (induction ts arbitrary: t)
  case Nil
  then show ?case by simp
next
  case (Cons a ts)
  then show ?case by fastforce
qed

lemma spaced_window:
  "spaced d ts \<Longrightarrow> 0 < d \<Longrightarrow> length (filter (\<lambda>t. a \<le> t \<and> t < a + d) ts) \<le> 1"
proof (induction ts)
  case Nil
  then show ?case by simp
next
  case (Cons t ts)
  have rest: "length (filter (\<lambda>t. a \<le> t \<and> t < a + d) ts) \<le> 1"
    using Cons spaced_tail by blast
  show ?case
  proof (cases "a \<le> t \<and> t < a + d")
    case False
    then show ?thesis using rest by auto
  next
    case True
    have "filter (\<lambda>t. a \<le> t \<and> t < a + d) ts = []"
      unfolding filter_empty_conv
    proof
      fix u assume "u \<in> set ts"
      from spaced_later [OF Cons.prems(1) _ this] Cons.prems(2) have "t + d \<le> u" by simp
      with True show "\<not> (a \<le> u \<and> u < a + d)" by simp
    qed
    then show ?thesis using True by simp
  qed
qed

text \<open>
  C4. Whatever the calls of \<open>gameTick\<close> and the state they find, the
  tick-advance requests it sends are at least one tick interval apart on its clock, so
  that any window shorter than the interval holds at most one of them. It sends nothing
  while the countdown is a positive number, and nothing while the room has a non-empty
  host identifier that differs from the local participant's id.
\<close>

theorem C4_tick_scheduler_gating:
  "spaced (TICK_RATE is_prod) (tick_times (run_polls is_prod pid lastT ps))
   \<and> length (filter (\<lambda>t. a \<le> t \<and> t < a + TICK_RATE is_prod)
               (tick_times (run_polls is_prod pid lastT ps))) \<le> 1
   \<and> ((\<exists>n. countdown g = Some n \<and> 0 < n) \<longrightarrow>
        gameTick is_prod pid now dt tt g = (g, []))
   \<and> ((\<exists>r. room g = Some r \<and> truthy_id (host_id r) \<and> host_id r \<noteq> Some pid) \<longrightarrow>
        gameTick is_prod pid now dt tt g = (g, []))"
proof (intro conjI)
  have sp: "spaced (TICK_RATE is_prod) (tick_times (run_polls is_prod pid lastT ps))"
    using spaced_run_polls [of is_prod lastT pid ps] by (rule spaced_tail)
  then show "spaced (TICK_RATE is_prod) (tick_times (run_polls is_prod pid lastT ps))" .
  have "0 < TICK_RATE is_prod" by (simp add: TICK_RATE_def)
  with sp show "length (filter (\<lambda>t. a \<le> t \<and> t < a + TICK_RATE is_prod)
               (tick_times (run_polls is_prod pid lastT ps))) \<le> 1"
    by (rule spaced_window)
  show "(\<exists>n. countdown g = Some n \<and> 0 < n) \<longrightarrow> gameTick is_prod pid now dt tt g = (g, [])"
    by (auto simp: gameTick_def split: option.splits)
  show "(\<exists>r. room g = Some r \<and> truthy_id (host_id r) \<and> host_id r \<noteq> Some pid) \<longrightarrow>
        gameTick is_prod pid now dt tt g = (g, [])"
    by (auto simp: gameTick_def split: option.splits)
qed

theorem C4_tick_scheduler_gating_witness:
  "tick_times (run_polls False ''p1'' 0 fast_polls) = [1000, 1150]
   \<and> spaced 150 (tick_times (run_polls False ''p1'' 0 fast_polls))
   \<and> gameTick False ''p1'' 1000 False False (playing_game\<lparr>countdown := Some 3\<rparr>) =
       (playing_game\<lparr>countdown := Some 3\<rparr>, [])
   \<and> gameTick False ''p2'' 1000 False False playing_game = (playing_game, [])"
proof -
  have st: "status playing_room = ''playing''" "room_code playing_room = ''ABCD''"
    "host_id playing_room = Some ''p1''"
    by (simp_all add: playing_room_def)
  have tt: "tick_times (run_polls False ''p1'' 0 fast_polls) = [1000, 1150]"
    by (simp add: fast_polls_def playing_game_def initial_game_def gameTick_def st
        truthy_id_def TICK_RATE_def tick_times_def Let_def)
  have cd: "\<exists>n. countdown (playing_game\<lparr>countdown := Some 3\<rparr>) = Some n \<and> 0 < n"
    by simp
  have ho: "\<exists>r. room playing_game = Some r \<and> truthy_id (host_id r) \<and> host_id r \<noteq> Some ''p2''"
    by (simp add: playing_game_def initial_game_def st truthy_id_def)
  from C4_tick_scheduler_gating [of False "''p1''" 0 fast_polls 0 "playing_game\<lparr>countdown := Some 3\<rparr>"
      1000 False False] cd
    C4_tick_scheduler_gating [of False "''p2''" 0 fast_polls 0 playing_game 1000 False False] ho
  show ?thesis by (simp add: tt TICK_RATE_def)
qed

text \<open>
  C4, counterexample. In a room without host identifier the participant's id differs
  from the host identifier, and the participant ticks all the same.
\<close>

theorem C4_hostless_room_counterexample:
  "host_id hostless_room \<noteq> Some ''p2''
   \<and> snd (gameTick False ''p2'' 1000 False False (initial_game\<lparr>room := Some hostless_room\<rparr>)) =
       [Request ViaWebSocket ''tick'' ''ABCD'' None]"
  by (simp add: hostless_room_def playing_room_def initial_game_def gameTick_def
      truthy_id_def TICK_RATE_def)

lemma game_loop_starts_iff:
  "game_loop_starts r cd \<longleftrightarrow>
     map_option status r = Some ''playing'' \<and> (case cd of None \<Rightarrow> True | Some n \<Rightarrow> n \<le> 0)"
  by (auto simp: game_loop_starts_def split: option.splits)

lemma commit_countdown_writes:
  "commit (countdown_writes e) cd = None \<or> (\<exists>n. 0 < n \<and> commit (countdown_writes e) cd = Some n)"
  by (cases e) (auto simp: commit_def countdown_timer_def Let_def)

lemma countdown_after_positive:
  "cd = None \<or> (\<exists>n. 0 < n \<and> cd = Some n) \<Longrightarrow>
   countdown_after es cd = None \<or> (\<exists>n. 0 < n \<and> countdown_after es cd = Some n)"
proof (induction es arbitrary: cd)
  case Nil
  then show ?case by simp
next
  case (Cons e es)
  from Cons.IH [OF commit_countdown_writes [of e cd]] show ?case by simp
qed

lemma gameTick_sends:
  "snd (gameTick is_prod pid now dt tt g) \<noteq> [] \<Longrightarrow>
   (\<exists>rm. room g = Some rm \<and> status rm = ''playing'') \<and>
   (countdown g = None \<or> (\<exists>n. countdown g = Some n \<and> n \<le> 0))"
  by (auto simp: gameTick_def split: option.splits if_splits)

text \<open>
  C5. Whatever the sequence of countdown starts, interval callbacks and resets since the
  page was loaded, the countdown a render sees is null or positive, never zero. On every
  such state the game loop starts only when the status is playing and the countdown is
  null, \<open>gameTick\<close> sends a request only then, and with status playing and a null
  countdown the loop does start.
\<close>

theorem C5_loop_runs_only_without_countdown:
  "(game_loop_starts r (countdown_after es None) \<longrightarrow>
      map_option status r = Some ''playing'' \<and> countdown_after es None = None)
   \<and> (snd (gameTick is_prod pid now dt tt (g\<lparr>countdown := countdown_after es None\<rparr>)) \<noteq> [] \<longrightarrow>
      (\<exists>rm. room g = Some rm \<and> status rm = ''playing'') \<and> countdown_after es None = None)
   \<and> (map_option status r = Some ''playing'' \<and> countdown_after es None = None \<longrightarrow>
      game_loop_starts r (countdown_after es None))
   \<and> countdown_after es None \<noteq> Some 0"
proof -
  have inv: "countdown_after es None = None \<or> (\<exists>n. 0 < n \<and> countdown_after es None = Some n)"
    by (rule countdown_after_positive) simp
  have a: "game_loop_starts r (countdown_after es None) \<longrightarrow>
      map_option status r = Some ''playing'' \<and> countdown_after es None = None"
    using inv by (auto simp: game_loop_starts_iff)
  have b: "snd (gameTick is_prod pid now dt tt (g\<lparr>countdown := countdown_after es None\<rparr>)) \<noteq> [] \<longrightarrow>
      (\<exists>rm. room g = Some rm \<and> status rm = ''playing'') \<and> countdown_after es None = None"
    using inv gameTick_sends [of is_prod pid now dt tt "g\<lparr>countdown := countdown_after es None\<rparr>"]
    by auto
  have c: "map_option status r = Some ''playing'' \<and> countdown_after es None = None \<longrightarrow>
      game_loop_starts r (countdown_after es None)"
    by (simp add: game_loop_starts_iff)
  have d: "countdown_after es None \<noteq> Some 0" using inv by auto
  from a b c d show ?thesis by blast
qed

theorem C5_loop_runs_only_without_countdown_witness:
  "countdown_after started_countdown None = Some 4
   \<and> \<not> game_loop_starts (Some playing_room) (countdown_after started_countdown None)
   \<and> gameTick False ''p1'' 1000 False False
        (playing_game\<lparr>countdown := countdown_after started_countdown None\<rparr>) =
       (playing_game\<lparr>countdown := Some 4\<rparr>, [])
   \<and> countdown_after finished_countdown None = None
   \<and> game_loop_starts (Some playing_room) (countdown_after finished_countdown None)
   \<and> snd (gameTick False ''p1'' 1000 False False
        (playing_game\<lparr>countdown := countdown_after finished_countdown None\<rparr>)) =
       [Request ViaWebSocket ''tick'' ''ABCD'' None]"
proof -
  have s: "countdown_after started_countdown None = Some 4"
    by (simp add: started_countdown_def commit_def countdown_timer_def)
  have f: "countdown_after finished_countdown None = None"
    by (simp add: finished_countdown_def commit_def countdown_timer_def)
  have p: "status playing_room = ''playing''"
    by (simp add: playing_room_def)
  have t: "snd (gameTick False ''p1'' 1000 False False (playing_game\<lparr>countdown := None\<rparr>)) =
       [Request ViaWebSocket ''tick'' ''ABCD'' None]"
    by (simp add: playing_game_def playing_room_def initial_game_def gameTick_def
        truthy_id_def TICK_RATE_def)
  have n: "gameTick False ''p1'' 1000 False False (playing_game\<lparr>countdown := Some 4\<rparr>) =
       (playing_game\<lparr>countdown := Some 4\<rparr>, [])"
    by (simp add: playing_game_def playing_room_def initial_game_def gameTick_def)
  from C5_loop_runs_only_without_countdown
         [of "Some playing_room" started_countdown False "''p1''" 1000 False False playing_game]
       C5_loop_runs_only_without_countdown
         [of "Some playing_room" finished_countdown False "''p1''" 1000 False False playing_game]
  show ?thesis by (simp add: s f p t n)
qed

section \<open>Properties of the chat and typing handlers\<close>

lemma handleChatMessage_captured:
  "c_room cl = Some r \<Longrightarrow>
   room (handleChatMessage cl (Some u) g) =
     Some (r\<lparr>chat := or_else (chat u) (chat r), gameChat := or_else (gameChat u) (gameChat r),
             typing := or_else (typing u) (typing r)\<rparr>)"
  by (simp add: handleChatMessage_def Let_def split: option.splits)

lemma handleTypingUpdate_captured:
  "c_room cl = Some r \<Longrightarrow>
   room (handleTypingUpdate cl (Some u) g) = Some (r\<lparr>typing := or_else (typing u) (typing r)\<rparr>)"
  by (simp add: handleTypingUpdate_def Let_def split: option.splits)

lemma chat_keeps_status_when_fresh:
  "c_room cl = room g \<Longrightarrow>
   map_option status (room (handleChatMessage cl u g)) = map_option status (room g) \<and>
   map_option status (room (handleTypingUpdate cl u g)) = map_option status (room g)"
  by (simp add: handleChatMessage_def handleTypingUpdate_def Let_def split: option.splits)

text \<open>
  C2. The handlers registered while the session was playing outlive a room update that
  pauses it (the room code and the countdown did not change). A chat or typing broadcast
  that arrives then is merged into the room of the registration, and the session status
  goes from paused back to playing.
\<close>

theorem C2_chat_merge_from_stale_room:
  "handlers (on_roomUpdate 100 (Some paused_room) (mount playing_game)) =
     handlers (mount playing_game)
   \<and> map_option status (room (state (on_roomUpdate 100 (Some paused_room) (mount playing_game)))) =
       Some ''paused''
   \<and> map_option status (room (state (on_chatMessage (Some chat_frame)
       (on_roomUpdate 100 (Some paused_room) (mount playing_game))))) = Some ''playing''
   \<and> map_option status (room (state (on_typingUpdate (Some chat_frame)
       (on_roomUpdate 100 (Some paused_room) (mount playing_game))))) = Some ''playing''"
  by (simp add: on_roomUpdate_def on_chatMessage_def on_typingUpdate_def mount_def rerender_def
      run_listeners_effect_def listener_deps_def playing_game_def initial_game_def
      handleRoomUpdate_def setRoomWithInterpolation_def handleChatMessage_def
      handleTypingUpdate_def or_else_def paused_room_def chat_frame_def playing_room_def Let_def)

section \<open>Properties of the transport client\<close>

lemma attemptReconnect_below:
  "reconnectAttempts c < maxReconnectAttempts c \<Longrightarrow>
   attemptReconnect rnd c =
     c\<lparr>reconnectAttempts := reconnectAttempts c + 1,
       scheduled := scheduled c @ [reconnect_delay (isProduction c) (reconnectAttempts c + 1) rnd]\<rparr>"
  by (simp add: attemptReconnect_def)

lemma attemptReconnect_at_cap:
  "\<not> reconnectAttempts c < maxReconnectAttempts c \<Longrightarrow>
   attemptReconnect rnd c = c\<lparr>emitted := emitted c @ [''reconnectFailed'']\<rparr>"
  by (simp add: attemptReconnect_def signal_def)

lemma attemptReconnects_count:
  "reconnectAttempts c \<le> maxReconnectAttempts c \<Longrightarrow>
   reconnectAttempts (attemptReconnects rnds c) =
     min (reconnectAttempts c + length rnds) (maxReconnectAttempts c) \<and>
   length (scheduled (attemptReconnects rnds c)) =
     length (scheduled c) + min (length rnds) (maxReconnectAttempts c - reconnectAttempts c) \<and>
   emitted (attemptReconnects rnds c) =
     emitted c @ replicate (length rnds - (maxReconnectAttempts c - reconnectAttempts c))
                   ''reconnectFailed''"
proof (induction rnds arbitrary: c)
  case Nil
  then show ?case by simp
next
  case (Cons rnd rnds)
  show ?case
  proof (cases "reconnectAttempts c < maxReconnectAttempts c")
    case True
    let ?c = "attemptReconnect rnd c"
    have c': "reconnectAttempts ?c = reconnectAttempts c + 1"
      "maxReconnectAttempts ?c = maxReconnectAttempts c"
      "length (scheduled ?c) = length (scheduled c) + 1" "emitted ?c = emitted c"
      by (simp_all add: attemptReconnect_below [OF True])
    have "reconnectAttempts ?c \<le> maxReconnectAttempts ?c" using True c' by simp
    from Cons.IH [OF this] True show ?thesis
      by (auto simp: c' min_def)
  next
    case False
    let ?c = "attemptReconnect rnd c"
    have c': "reconnectAttempts ?c = reconnectAttempts c"
      "maxReconnectAttempts ?c = maxReconnectAttempts c"
      "scheduled ?c = scheduled c" "emitted ?c = emitted c @ [''reconnectFailed'']"
      by (simp_all add: attemptReconnect_at_cap [OF False])
    have "reconnectAttempts ?c \<le> maxReconnectAttempts ?c" using Cons.prems c' by simp
    from Cons.IH [OF this] False Cons.prems show ?thesis
      by (simp add: c')
  qed
qed

lemma rne_of_int: "rne (of_int k) = k"
  by (simp add: rne_def)

lemma rne_mono: "m \<le> m' \<Longrightarrow> rne m \<le> rne m'"
proof -
  assume le: "m \<le> m'"
  have f: "\<lfloor>m\<rfloor> \<le> \<lfloor>m'\<rfloor>" using le by (rule floor_mono)
  have lo: "\<lfloor>m'\<rfloor> \<le> rne m'" by (simp add: rne_def Let_def)
  have hi: "rne m \<le> \<lfloor>m\<rfloor> + 1" by (simp add: rne_def Let_def)
  show ?thesis
  proof (cases "\<lfloor>m\<rfloor> = \<lfloor>m'\<rfloor>")
    case False
    with f have "\<lfloor>m\<rfloor> + 1 \<le> \<lfloor>m'\<rfloor>" by simp
    with lo hi show ?thesis by simp
  next
    case True
    have "m - of_int \<lfloor>m\<rfloor> \<le> m' - of_int \<lfloor>m'\<rfloor>" using le True by simp
    then show ?thesis using True by (auto simp: rne_def Let_def)
  qed
qed

lemma binade_bounds:
  assumes "0 < x"
  shows "2 powi binade x \<le> x" and "x < 2 powi (binade x + 1)"
proof -
  have "\<lfloor>log 2 x\<rfloor> = binade x" by (simp add: binade_def)
  then have "2 powr (binade x) \<le> x \<and> x < 2 powr (binade x + 1)"
    using floor_log_eq_powr_iff [of x 2 "binade x"] assms by simp
  then show "2 powi binade x \<le> x" and "x < 2 powi (binade x + 1)"
    using powr_real_of_int' [of 2 "binade x"] powr_real_of_int' [of 2 "binade x + 1"]
    by simp_all
qed

lemma binade_eqI:
  assumes "0 < x" "2 powi e \<le> x" "x < 2 powi (e + 1)"
  shows "binade x = e"
proof -
  have "2 powr e \<le> x \<and> x < 2 powr (e + 1)"
    using assms powr_real_of_int' [of 2 e] powr_real_of_int' [of 2 "e + 1"] by simp
  then show ?thesis
    using floor_log_eq_powr_iff [of x 2 e] assms(1) by (simp add: binade_def)
qed

lemma binade_mono: "0 < x \<Longrightarrow> x \<le> y \<Longrightarrow> binade x \<le> binade y"
  by (simp add: binade_def floor_mono)

lemma fl64_pos:
  "0 < x \<Longrightarrow> fl64 x = of_int (rne (x / 2 powi (binade x - 52))) * 2 powi (binade x - 52)"
  by (simp add: fl64_def)

lemma fl64_zero: "fl64 0 = 0"
  by (simp add: fl64_def)

lemma fl64_range:
  assumes "0 < x"
  shows "2 powi binade x \<le> fl64 x" and "fl64 x \<le> 2 powi (binade x + 1)"
proof -
  let ?u = "2 powi (binade x - 52) :: real"
  have u: "0 < ?u" by simp
  have lo: "2 ^ 52 \<le> x / ?u"
    using binade_bounds(1) [OF assms] u
    by (simp add: power_int_diff field_simps)
  have hi: "x / ?u \<le> 2 ^ 53"
    using binade_bounds(2) [OF assms] u
    by (simp add: power_int_diff power_int_add field_simps)
  have "rne (of_int (2 ^ 52)) \<le> rne (x / ?u)" using lo by (intro rne_mono) simp
  then have a: "(2 ^ 52 :: real) \<le> of_int (rne (x / ?u))"
    unfolding rne_of_int by (metis of_int_le_iff of_int_numeral of_int_power)
  have "rne (x / ?u) \<le> rne (of_int (2 ^ 53))" using hi by (intro rne_mono) simp
  then have b: "of_int (rne (x / ?u)) \<le> (2 ^ 53 :: real)"
    unfolding rne_of_int by (metis of_int_le_iff of_int_numeral of_int_power)
  have "2 powi binade x = 2 ^ 52 * ?u" by (simp add: power_int_diff)
  also have "\<dots> \<le> of_int (rne (x / ?u)) * ?u" using a u by simp
  finally show "2 powi binade x \<le> fl64 x" by (simp add: fl64_pos [OF assms])
  have "of_int (rne (x / ?u)) * ?u \<le> 2 ^ 53 * ?u" using b u by simp
  also have "\<dots> = 2 powi (binade x + 1)" by (simp add: power_int_diff power_int_add)
  finally show "fl64 x \<le> 2 powi (binade x + 1)" by (simp add: fl64_pos [OF assms])
qed

lemma fl64_nonneg: "0 \<le> x \<Longrightarrow> 0 \<le> fl64 x"
proof (cases "x = 0")
  case True
  then show ?thesis by (simp add: fl64_zero)
next
  case False
  assume "0 \<le> x"
  with False have "0 < x" by simp
  from fl64_range(1) [OF this] show ?thesis
    by (meson less_eq_real_def order_trans zero_less_numeral zero_less_power_int)
qed

lemma fl64_mono:
  assumes "0 \<le> x" "x \<le> y"
  shows "fl64 x \<le> fl64 y"
proof (cases "x = 0")
  case True
  then show ?thesis using assms fl64_nonneg [of y] by (simp add: fl64_zero)
next
  case False
  with assms have x: "0 < x" and y: "0 < y" by simp_all
  have e: "binade x \<le> binade y" using x assms(2) by (rule binade_mono)
  show ?thesis
  proof (cases "binade x = binade y")
    case True
    let ?u = "2 powi (binade x - 52) :: real"
    have "x / ?u \<le> y / ?u" using assms(2) by (simp add: divide_right_mono)
    then have "rne (x / ?u) \<le> rne (y / ?u)" by (rule rne_mono)
    then have "of_int (rne (x / ?u)) * ?u \<le> of_int (rne (y / ?u)) * ?u"
      by (simp add: mult_right_mono)
    then show ?thesis by (simp add: fl64_pos [OF x] fl64_pos [OF y] True [symmetric])
  next
    case False
    with e have "binade x + 1 \<le> binade y" by simp
    then have "(2::real) powi (binade x + 1) \<le> 2 powi binade y"
      by (intro power_int_increasing) simp_all
    with fl64_range(2) [OF x] fl64_range(1) [OF y] show ?thesis by linarith
  qed
qed

lemma fl64_exact:
  assumes "0 < m" "m < 2 ^ 53"
  shows "fl64 (of_int m * 2 powi e) = of_int m * 2 powi e"
proof -
  let ?x = "of_int m * 2 powi e :: real"
  have x: "0 < ?x" using assms(1) by simp
  define b where "b = binade ?x"
  have "(of_int m :: real) < of_int (2 ^ 53)" using assms(2) by (simp only: of_int_less_iff)
  then have mlt: "(of_int m :: real) < 2 ^ 53" by simp
  have "2 powi b \<le> ?x" unfolding b_def by (rule binade_bounds(1) [OF x])
  also have "?x < 2 ^ 53 * 2 powi e"
    using mlt by (intro mult_strict_right_mono) simp_all
  also have "\<dots> = 2 powi (53 + e)" by (simp add: power_int_add)
  finally have lt: "(2::real) powi b < 2 powi (53 + e)" .
  have "b < 53 + e"
  proof (rule ccontr)
    assume "\<not> b < 53 + e"
    then have "(2::real) powi (53 + e) \<le> 2 powi b"
      by (intro power_int_increasing) simp_all
    with lt show False by simp
  qed
  then have nn: "0 \<le> e - b + 52" by simp
  define k where "k = nat (e - b + 52)"
  have k: "e - b + 52 = int k" using nn by (simp add: k_def)
  have "(2::real) powi e = 2 powi (e - b + 52) * 2 powi (b - 52)"
    by (simp flip: power_int_add)
  also have "\<dots> = 2 ^ k * 2 powi (b - 52)" by (simp only: k power_int_of_nat)
  finally have e: "(2::real) powi e = 2 ^ k * 2 powi (b - 52)" .
  have u: "(2::real) powi (b - 52) \<noteq> 0" by simp
  have "?x / 2 powi (b - 52) = of_int m * 2 ^ k"
    unfolding e using u by simp
  also have "\<dots> = of_int (m * 2 ^ k)" by simp
  finally have "rne (?x / 2 powi (b - 52)) = m * 2 ^ k" by (simp only: rne_of_int)
  then have "fl64 ?x = of_int (m * 2 ^ k) * 2 powi (b - 52)"
    unfolding fl64_pos [OF x] b_def [symmetric] by simp
  also have "\<dots> = of_int m * (2 ^ k * 2 powi (b - 52))" by simp
  also have "\<dots> = ?x" by (simp only: e)
  finally show ?thesis .
qed

lemma fl64_of_int: "0 \<le> k \<Longrightarrow> k < 2 ^ 53 \<Longrightarrow> fl64 (of_int k) = of_int k"
  using fl64_exact [of k 0] by (cases "k = 0") (simp_all add: fl64_zero)

lemma fl64_numeral: "fl64 (numeral w) = numeral w" if "(numeral w :: int) < 2 ^ 53"
  using fl64_of_int [of "numeral w"] that by simp

lemma fl64_less_imp:
  assumes "0 \<le> x" "0 \<le> c" "c < 2 ^ 53" "fl64 x < of_int c"
  shows "x < of_int c"
proof (rule ccontr)
  assume "\<not> x < of_int c"
  then have "of_int c \<le> x" by simp
  then have "fl64 (of_int c) \<le> fl64 x" using assms(2) by (intro fl64_mono) simp_all
  with assms show False by (simp add: fl64_of_int)
qed

lemma fl64_strict:
  assumes "0 \<le> x" "x + 2 \<le> y" "y < 2 ^ 52"
  shows "fl64 x < fl64 y"
proof -
  define k where "k = \<lceil>x\<rceil>"
  have k0: "0 \<le> k" using assms(1) by (simp add: k_def)
  have xk: "x \<le> of_int k" by (simp add: k_def)
  have kx: "of_int k < x + 1" unfolding k_def by linarith
  have "of_int k < (2 ^ 52 :: real)" using kx assms by linarith
  then have "(of_int k :: real) < of_int (2 ^ 52)" by simp
  then have k52: "k < 2 ^ 52" by (simp only: of_int_less_iff)
  have k53: "k < 2 ^ 53" "k + 1 < 2 ^ 53" using k52 by simp_all
  have "fl64 x \<le> fl64 (of_int k)" using assms(1) xk by (rule fl64_mono)
  also have "\<dots> = of_int k" using k0 k53(1) by (rule fl64_of_int)
  also have "\<dots> < of_int (k + 1)" by simp
  also have "of_int (k + 1) = fl64 (of_int (k + 1))"
    using k0 k53(2) by (simp add: fl64_of_int del: of_int_add)
  also have "\<dots> \<le> fl64 y"
    using k0 kx assms(2) by (intro fl64_mono) simp_all
  finally show ?thesis .
qed

lemma jitter_bounds:
  assumes "0 \<le> j" "j < 1"
  shows "0 \<le> fl64 (j * 1000)" and "fl64 (j * 1000) \<le> 1000"
proof -
  show "0 \<le> fl64 (j * 1000)" using assms(1) by (intro fl64_nonneg) simp
  have "fl64 (j * 1000) \<le> fl64 1000" using assms by (intro fl64_mono) simp_all
  then show "fl64 (j * 1000) \<le> 1000" by (simp add: fl64_numeral)
qed

lemma pow_exact:
  assumes "k \<le> 10"
  shows "fl64 ((3 / 2) ^ k) = (3 / 2) ^ k"
proof -
  have "(3::int) ^ k \<le> 3 ^ 10" using assms by (intro power_increasing) simp_all
  then have b: "(3::int) ^ k < 2 ^ 53" by simp
  have "(3 / 2 :: real) ^ k = of_int (3 ^ k) * 2 powi (- int k)"
    by (simp add: power_divide power_int_minus field_simps)
  moreover have "fl64 (of_int (3 ^ k) * 2 powi (- int k)) = of_int (3 ^ k) * 2 powi (- int k)"
    using b by (intro fl64_exact) simp_all
  ultimately show ?thesis by simp
qed

lemma backoff_exact:
  assumes "k \<le> 10"
  shows "fl64 (baseDelay is_prod * fl64 ((3 / 2) ^ k)) = baseDelay is_prod * (3 / 2) ^ k"
proof -
  define c :: int where "c = (if is_prod then 2000 else 1000)"
  have c: "baseDelay is_prod = of_int c" "0 < c" "c \<le> 2000"
    by (simp_all add: baseDelay_def c_def)
  have "(3::int) ^ k \<le> 3 ^ 10" using assms by (intro power_increasing) simp_all
  then have "c * 3 ^ k \<le> 2000 * 3 ^ 10"
    using c(2,3) by (intro mult_mono) simp_all
  then have b: "c * 3 ^ k < 2 ^ 53" by simp
  have "baseDelay is_prod * (3 / 2) ^ k = of_int (c * 3 ^ k) * 2 powi (- int k)"
    by (simp add: c(1) power_divide power_int_minus field_simps)
  moreover have "fl64 (of_int (c * 3 ^ k) * 2 powi (- int k)) = of_int (c * 3 ^ k) * 2 powi (- int k)"
    using b c(2) by (intro fl64_exact) simp_all
  ultimately show ?thesis by (simp add: pow_exact [OF assms])
qed

lemma baseDelay_ge: "1000 \<le> baseDelay is_prod" "baseDelay is_prod \<le> 2000"
  by (simp_all add: baseDelay_def)

lemma unclamped_attempt:
  assumes "0 \<le> j" "reconnect_delay is_prod n j < 10000"
  shows "n \<le> 6"
proof (rule ccontr)
  assume "\<not> n \<le> 6"
  then have k: "6 \<le> n - 1" by simp
  have "(11::real) \<le> (3 / 2) ^ 6" by (simp add: power_divide)
  also have "\<dots> \<le> (3 / 2) ^ (n - 1)" using k by (intro power_increasing) simp_all
  finally have "fl64 11 \<le> fl64 ((3 / 2) ^ (n - 1))" by (intro fl64_mono) simp_all
  then have p: "11 \<le> fl64 ((3 / 2) ^ (n - 1))" by (simp add: fl64_numeral)
  have "(11000::real) \<le> 1000 * 11" by simp
  also have "\<dots> \<le> baseDelay is_prod * fl64 ((3 / 2) ^ (n - 1))"
    using p baseDelay_ge(1) [of is_prod] by (intro mult_mono) simp_all
  finally have "fl64 11000 \<le> fl64 (baseDelay is_prod * fl64 ((3 / 2) ^ (n - 1)))"
    by (intro fl64_mono) simp_all
  then have a: "11000 \<le> fl64 (baseDelay is_prod * fl64 ((3 / 2) ^ (n - 1)))"
    by (simp add: fl64_numeral)
  have "0 \<le> fl64 (j * 1000)" using assms(1) by (intro fl64_nonneg) simp
  with a have "fl64 11000 \<le>
      fl64 (fl64 (baseDelay is_prod * fl64 ((3 / 2) ^ (n - 1))) + fl64 (j * 1000))"
    by (intro fl64_mono) simp_all
  then have "11000 \<le>
      fl64 (fl64 (baseDelay is_prod * fl64 ((3 / 2) ^ (n - 1))) + fl64 (j * 1000))"
    by (simp add: fl64_numeral)
  with assms(2) show False by (simp add: reconnect_delay_def)
qed

lemma reconnect_delay_sum:
  assumes "1 \<le> n" "n \<le> 11"
  shows "reconnect_delay is_prod n j =
           min (fl64 (baseDelay is_prod * (3 / 2) ^ (n - 1) + fl64 (j * 1000))) 10000"
  using assms by (simp add: reconnect_delay_def backoff_exact)

lemma reconnect_delay_increases:
  assumes n: "1 \<le> n"
    and j: "0 \<le> j1" "j1 < 1" "0 \<le> j2" "j2 < 1"
    and c: "is_prod \<and> 2 \<le> n \<or> 3 \<le> n \<or> j1 \<le> j2"
    and u: "reconnect_delay is_prod n j1 < 10000"
  shows "reconnect_delay is_prod n j1 < reconnect_delay is_prod (Suc n) j2"
proof -
  have n6: "n \<le> 6" using j(1) u by (rule unclamped_attempt)
  obtain k where k: "n = Suc k" using n by (cases n) auto
  define a where "a = baseDelay is_prod * (3 / 2) ^ k"
  define J1 where "J1 = fl64 (j1 * 1000)"
  define J2 where "J2 = fl64 (j2 * 1000)"
  have J: "0 \<le> J1" "J1 \<le> 1000" "0 \<le> J2" "J2 \<le> 1000"
    unfolding J1_def J2_def using j by (simp_all add: jitter_bounds)
  have d1: "reconnect_delay is_prod n j1 = min (fl64 (a + J1)) 10000"
    using n n6 by (simp add: reconnect_delay_sum a_def J1_def k)
  have "reconnect_delay is_prod (Suc n) j2 =
      min (fl64 (baseDelay is_prod * (3 / 2) ^ (Suc n - 1) + fl64 (j2 * 1000))) 10000"
    using n6 by (intro reconnect_delay_sum) simp_all
  moreover have "baseDelay is_prod * (3 / 2) ^ (Suc n - 1) = a * (3 / 2)"
    by (simp add: a_def k)
  ultimately have d2: "reconnect_delay is_prod (Suc n) j2 = min (fl64 (a * (3 / 2) + J2)) 10000"
    by (simp only: J2_def)
  have p1: "(1::real) \<le> (3 / 2) ^ k" by simp
  have a1: "1000 \<le> a"
    unfolding a_def using baseDelay_ge(1) [of is_prod] p1
    by (metis mult.right_neutral mult_mono order_trans zero_le_numeral zero_le_one)
  have "(3 / 2 :: real) ^ k \<le> (3 / 2) ^ 5" using n6 k by (intro power_increasing) simp_all
  then have "a \<le> 2000 * (3 / 2) ^ 5"
    unfolding a_def using baseDelay_ge(2) [of is_prod] by (intro mult_mono) simp_all
  then have a2: "a \<le> 16000" by (simp add: power_divide)
  have gap: "a + J1 + 2 \<le> a * (3 / 2) + J2"
    using c
  proof (elim disjE conjE)
    assume "is_prod" "2 \<le> n"
    then have "(3 / 2 :: real) ^ 1 \<le> (3 / 2) ^ k" using k by (intro power_increasing) simp_all
    then have "3000 \<le> a" using \<open>is_prod\<close> by (simp add: a_def baseDelay_def)
    with J show ?thesis by simp
  next
    assume "3 \<le> n"
    then have "(3 / 2 :: real) ^ 2 \<le> (3 / 2) ^ k" using k by (intro power_increasing) simp_all
    then have "(9 / 4 :: real) \<le> (3 / 2) ^ k" by (simp add: power_divide)
    then have "1000 * (9 / 4) \<le> a"
      unfolding a_def using baseDelay_ge(1) [of is_prod] by (intro mult_mono) simp_all
    with J show ?thesis by simp
  next
    assume "j1 \<le> j2"
    then have "J1 \<le> J2" unfolding J1_def J2_def using j(1) by (intro fl64_mono) simp_all
    with a1 show ?thesis by simp
  qed
  have "fl64 (a + J1) < fl64 (a * (3 / 2) + J2)"
    using a1 a2 J gap by (intro fl64_strict) simp_all
  moreover have "fl64 (a + J1) < 10000" using u by (simp add: d1)
  ultimately show ?thesis by (simp add: d1 d2)
qed

lemma reconnect_delay_production_mono:
  assumes n: "1 \<le> n" and j: "0 \<le> j1" "j1 < 1" "0 \<le> j2"
    and u: "reconnect_delay True n j1 < 10000"
  shows "reconnect_delay True n j1 \<le> reconnect_delay True (Suc n) j2"
proof -
  have n6: "n \<le> 6" using j(1) u by (rule unclamped_attempt)
  obtain k where k: "n = Suc k" using n by (cases n) auto
  define a where "a = baseDelay True * (3 / 2) ^ k"
  define J1 where "J1 = fl64 (j1 * 1000)"
  define J2 where "J2 = fl64 (j2 * 1000)"
  have J: "0 \<le> J1" "J1 \<le> 1000" "0 \<le> J2"
    unfolding J1_def J2_def using j by (simp_all add: jitter_bounds fl64_nonneg)
  have d1: "reconnect_delay True n j1 = min (fl64 (a + J1)) 10000"
    using n n6 by (simp add: reconnect_delay_sum a_def J1_def k)
  have "reconnect_delay True (Suc n) j2 =
      min (fl64 (baseDelay True * (3 / 2) ^ (Suc n - 1) + fl64 (j2 * 1000))) 10000"
    using n6 by (intro reconnect_delay_sum) simp_all
  moreover have "baseDelay True * (3 / 2) ^ (Suc n - 1) = a * (3 / 2)"
    by (simp add: a_def k)
  ultimately have d2: "reconnect_delay True (Suc n) j2 = min (fl64 (a * (3 / 2) + J2)) 10000"
    by (simp only: J2_def)
  have "(1::real) \<le> (3 / 2) ^ k" by simp
  then have "2000 \<le> a" by (simp add: a_def baseDelay_def)
  with J have "a + J1 \<le> a * (3 / 2) + J2" by simp
  then have "fl64 (a + J1) \<le> fl64 (a * (3 / 2) + J2)"
    using \<open>2000 \<le> a\<close> J by (intro fl64_mono) simp_all
  then show ?thesis by (simp add: d1 d2 min_def)
qed

lemma backoff_term_increases:
  assumes "1 \<le> n" "n \<le> 10"
  shows "fl64 (baseDelay is_prod * fl64 ((3 / 2) ^ (n - 1)))
         < fl64 (baseDelay is_prod * fl64 ((3 / 2) ^ n))"
proof -
  obtain k where k: "n = Suc k" using assms(1) by (cases n) auto
  have pos: "0 < baseDelay is_prod * (3 / 2) ^ k" by (simp add: baseDelay_def)
  have l: "fl64 (baseDelay is_prod * fl64 ((3 / 2) ^ (n - 1))) = baseDelay is_prod * (3 / 2) ^ k"
    using assms(2) backoff_exact [of k is_prod] by (simp add: k)
  have r: "fl64 (baseDelay is_prod * fl64 ((3 / 2) ^ n)) = baseDelay is_prod * (3 / 2) ^ n"
    using assms(2) by (intro backoff_exact)
  define A where "A = baseDelay is_prod * (3 / 2) ^ k"
  have "baseDelay is_prod * (3 / 2) ^ n = A * (3 / 2)"
    by (simp add: k A_def)
  moreover have "A < A * (3 / 2)" using pos by (simp add: A_def)
  ultimately show ?thesis unfolding l r A_def [symmetric] by simp
qed

lemma fl64_eval:
  assumes "0 < x" "2 powi e \<le> x" "x < 2 powi (e + 1)"
  shows "fl64 x = of_int (rne (x / 2 powi (e - 52))) * 2 powi (e - 52)"
  using binade_eqI [OF assms] by (simp add: fl64_pos [OF assms(1)])

lemma rne_down: "of_int f \<le> m \<Longrightarrow> m < of_int f + 1 / 2 \<Longrightarrow> rne m = f"
proof -
  assume a: "of_int f \<le> m" "m < of_int f + 1 / 2"
  then have "\<lfloor>m\<rfloor> = f" by (intro floor_unique) simp_all
  with a show ?thesis by (simp add: rne_def Let_def)
qed

lemma rne_tie_odd: "m = of_int f + 1 / 2 \<Longrightarrow> odd f \<Longrightarrow> rne m = f + 1"
proof -
  assume a: "m = of_int f + 1 / 2" "odd f"
  then have "\<lfloor>m\<rfloor> = f" by (intro floor_unique) simp_all
  with a show ?thesis by (simp add: rne_def Let_def)
qed

lemma dev_delays:
  "reconnect_delay False 1 (3 / 4) = 1750" "reconnect_delay False 2 (1 / 8) = 1625"
  by (simp_all add: reconnect_delay_sum baseDelay_def fl64_numeral)

lemma largest_jitter: "fl64 ((1 - 1 / 2 ^ 52) * 1000) = 1000 - 1 / 2 ^ 42"
proof -
  let ?x = "(1 - 1 / 2 ^ 52) * 1000 :: real"
  have "fl64 ?x = of_int (rne (?x / 2 powi (9 - 52))) * 2 powi (9 - 52)"
    by (rule fl64_eval) (simp_all add: power_int_def power_one_over)
  moreover have "rne (?x / 2 powi (9 - 52)) = 8796093022207998"
    by (rule rne_down) (simp_all add: power_int_def power_one_over)
  ultimately show ?thesis by (simp add: power_int_def power_one_over)
qed

lemma production_tie:
  "reconnect_delay True 1 (1 - 1 / 2 ^ 52) = 3000" "reconnect_delay True 2 0 = 3000"
proof -
  define s :: real where "s = 2000 + (1000 - 1 / 2 ^ 42)"
  have "fl64 s = of_int (rne (s / 2 powi (11 - 52))) * 2 powi (11 - 52)"
    by (rule fl64_eval) (simp_all add: s_def power_int_def power_one_over)
  moreover have "rne (s / 2 powi (11 - 52)) = 6597069766655999 + 1"
    by (rule rne_tie_odd) (simp_all add: s_def power_int_def power_one_over)
  ultimately have s: "fl64 s = 3000" by (simp add: power_int_def power_one_over)
  have "reconnect_delay True 1 (1 - 1 / 2 ^ 52) =
      min (fl64 (baseDelay True * (3 / 2) ^ (1 - 1) + fl64 ((1 - 1 / 2 ^ 52) * 1000))) 10000"
    by (rule reconnect_delay_sum) simp_all
  also have "baseDelay True * (3 / 2) ^ (1 - 1) = 2000" by (simp add: baseDelay_def)
  finally have "reconnect_delay True 1 (1 - 1 / 2 ^ 52) = min (fl64 s) 10000"
    by (simp only: largest_jitter s_def)
  then show "reconnect_delay True 1 (1 - 1 / 2 ^ 52) = 3000"
    by (simp add: s)
  show "reconnect_delay True 2 0 = 3000"
    by (simp add: reconnect_delay_sum baseDelay_def fl64_zero fl64_numeral)
qed

text \<open>
  C6. Below the cap a lost connection increments the attempt count and schedules one
  reconnect; at the cap it schedules nothing and emits \<^verbatim>\<open>reconnectFailed\<close>. A new
  client that loses its connection again and again schedules ten reconnects and fails
  every time after; a command sent while disconnected opens a connection of its own,
  whatever the attempt count. Up to the tenth attempt the backoff term without jitter
  strictly grows from one attempt to the next. The delay with jitter, while not yet
  clamped at 10000 ms, is strictly smaller than the next one from the second attempt on
  in production builds, from the third attempt on in any build, or when the next jitter
  is not smaller; in production builds it is never larger than the next one.
\<close>

theorem C6_reconnect_cap_and_backoff:
  "(reconnectAttempts c < maxReconnectAttempts c \<longrightarrow>
      attemptReconnect rnd c =
        c\<lparr>reconnectAttempts := reconnectAttempts c + 1,
          scheduled := scheduled c @
            [reconnect_delay (isProduction c) (reconnectAttempts c + 1) rnd]\<rparr>)
   \<and> (maxReconnectAttempts c \<le> reconnectAttempts c \<longrightarrow>
      attemptReconnect rnd c = c\<lparr>emitted := emitted c @ [''reconnectFailed'']\<rparr>)
   \<and> length (scheduled (attemptReconnects rnds (new_client is_prod))) = min (length rnds) 10
   \<and> emitted (attemptReconnects rnds (new_client is_prod)) =
       replicate (length rnds - 10) ''reconnectFailed''
   \<and> (\<not> connected c \<longrightarrow>
        sockets (fst (send act ps rid fresh_rid fresh_pid False c)) = sockets c @ [CONNECTING]
        \<and> scheduled (fst (send act ps rid fresh_rid fresh_pid False c)) = scheduled c
        \<and> reconnectAttempts (fst (send act ps rid fresh_rid fresh_pid False c)) =
            reconnectAttempts c)
   \<and> (1 \<le> n \<and> n \<le> 10 \<longrightarrow>
        fl64 (baseDelay is_prod * fl64 ((3 / 2) ^ (n - 1)))
        < fl64 (baseDelay is_prod * fl64 ((3 / 2) ^ n)))
   \<and> (1 \<le> n \<and> 0 \<le> ja \<and> ja < 1 \<and> 0 \<le> jb \<and> jb < 1 \<and>
      (is_prod \<and> 2 \<le> n \<or> 3 \<le> n \<or> ja \<le> jb) \<and>
      reconnect_delay is_prod n ja < 10000 \<longrightarrow>
      reconnect_delay is_prod n ja < reconnect_delay is_prod (Suc n) jb)
   \<and> (1 \<le> n \<and> 0 \<le> ja \<and> ja < 1 \<and> 0 \<le> jb \<and> reconnect_delay True n ja < 10000 \<longrightarrow>
      reconnect_delay True n ja \<le> reconnect_delay True (Suc n) jb)"
proof (intro conjI)
  show "reconnectAttempts c < maxReconnectAttempts c \<longrightarrow>
      attemptReconnect rnd c =
        c\<lparr>reconnectAttempts := reconnectAttempts c + 1,
          scheduled := scheduled c @
            [reconnect_delay (isProduction c) (reconnectAttempts c + 1) rnd]\<rparr>"
    by (simp add: attemptReconnect_below)
  show "maxReconnectAttempts c \<le> reconnectAttempts c \<longrightarrow>
      attemptReconnect rnd c = c\<lparr>emitted := emitted c @ [''reconnectFailed'']\<rparr>"
    by (simp add: attemptReconnect_at_cap)
  have le: "reconnectAttempts (new_client is_prod) \<le> maxReconnectAttempts (new_client is_prod)"
    by (simp add: new_client_def)
  from attemptReconnects_count [OF le, of rnds]
  show "length (scheduled (attemptReconnects rnds (new_client is_prod))) = min (length rnds) 10"
    and "emitted (attemptReconnects rnds (new_client is_prod)) =
       replicate (length rnds - 10) ''reconnectFailed''"
    by (simp_all add: new_client_def)
  show "\<not> connected c \<longrightarrow>
        sockets (fst (send act ps rid fresh_rid fresh_pid False c)) = sockets c @ [CONNECTING]
        \<and> scheduled (fst (send act ps rid fresh_rid fresh_pid False c)) = scheduled c
        \<and> reconnectAttempts (fst (send act ps rid fresh_rid fresh_pid False c)) =
            reconnectAttempts c"
    by (simp add: send_def connect_def Let_def)
  show "1 \<le> n \<and> n \<le> 10 \<longrightarrow>
        fl64 (baseDelay is_prod * fl64 ((3 / 2) ^ (n - 1)))
        < fl64 (baseDelay is_prod * fl64 ((3 / 2) ^ n))"
    using backoff_term_increases by blast
  show "1 \<le> n \<and> 0 \<le> ja \<and> ja < 1 \<and> 0 \<le> jb \<and> jb < 1 \<and>
      (is_prod \<and> 2 \<le> n \<or> 3 \<le> n \<or> ja \<le> jb) \<and>
      reconnect_delay is_prod n ja < 10000 \<longrightarrow>
      reconnect_delay is_prod n ja < reconnect_delay is_prod (Suc n) jb"
    using reconnect_delay_increases by blast
  show "1 \<le> n \<and> 0 \<le> ja \<and> ja < 1 \<and> 0 \<le> jb \<and> reconnect_delay True n ja < 10000 \<longrightarrow>
      reconnect_delay True n ja \<le> reconnect_delay True (Suc n) jb"
    using reconnect_delay_production_mono by blast
qed

theorem C6_reconnect_cap_and_backoff_witness:
  "length (scheduled (attemptReconnects (replicate 12 0) (new_client False))) = 10
   \<and> emitted (attemptReconnects (replicate 12 0) (new_client False)) =
       [''reconnectFailed'', ''reconnectFailed'']
   \<and> reconnect_delay False 3 (3 / 4) = 3000
   \<and> reconnect_delay False 3 (3 / 4) < reconnect_delay False 4 (1 / 8)"
proof -
  have d: "reconnect_delay False 3 (3 / 4) = 3000"
    by (simp add: reconnect_delay_sum baseDelay_def fl64_numeral power2_eq_square)
  have h: "1 \<le> (3::nat) \<and> (0::real) \<le> 3 / 4 \<and> (3 / 4 :: real) < 1 \<and> (0::real) \<le> 1 / 8 \<and>
      (1 / 8 :: real) < 1 \<and> (False \<and> 2 \<le> (3::nat) \<or> 3 \<le> (3::nat) \<or> (3 / 4 :: real) \<le> 1 / 8) \<and>
      reconnect_delay False 3 (3 / 4) < 10000"
    by (simp add: d)
  note t = C6_reconnect_cap_and_backoff
         [where c = "new_client False" and rnd = 0 and rnds = "replicate 12 0"
            and is_prod = False and n = 3 and ja = "3 / 4" and jb = "1 / 8"]
  have a: "length (scheduled (attemptReconnects (replicate 12 0) (new_client False))) = 10"
    using t [THEN conjunct2, THEN conjunct2, THEN conjunct1] by simp
  have b: "emitted (attemptReconnects (replicate 12 0) (new_client False)) =
       [''reconnectFailed'', ''reconnectFailed'']"
    using t [THEN conjunct2, THEN conjunct2, THEN conjunct2, THEN conjunct1]
    by (simp add: numeral_2_eq_2)
  have "reconnect_delay False 3 (3 / 4) < reconnect_delay False (Suc 3) (1 / 8)"
    using t [THEN conjunct2, THEN conjunct2, THEN conjunct2, THEN conjunct2, THEN conjunct2,
             THEN conjunct2, THEN conjunct1] h
    by blast
  then have c: "reconnect_delay False 3 (3 / 4) < reconnect_delay False 4 (1 / 8)"
    by simp
  from a b c d show ?thesis by blast
qed

text \<open>
  C6, counterexample. In a development build, with a large jitter on the first attempt
  and a small one on the second, the second delay is the shorter, and neither is clamped.
\<close>

theorem C6_jitter_counterexample:
  "reconnect_delay False 2 (1 / 8) < reconnect_delay False 1 (3 / 4)
   \<and> reconnect_delay False 1 (3 / 4) < 10000"
  using dev_delays by simp

lemma send_disconnected:
  "\<not> connected c \<Longrightarrow>
   messageQueue (fst (send act ps rid fresh_rid fresh_pid ctor_throws c)) =
     messageQueue c @
       [\<lparr>action = act, m_playerId = playerId c,
         responseId = (case rid of None \<Rightarrow> fresh_rid | Some r \<Rightarrow> if r = [] then fresh_rid else r),
         params = ps\<rparr>] \<and>
   wire (fst (send act ps rid fresh_rid fresh_pid ctor_throws c)) = wire c"
  by (simp add: send_def Let_def connect_def signal_def)

lemma flushMessageQueue_open:
  "connected c \<Longrightarrow> ws c = Some i \<Longrightarrow> i < length (sockets c) \<Longrightarrow> sockets c ! i = OPEN \<Longrightarrow>
   flushMessageQueue c =
     c\<lparr>messageQueue := [], wire := wire c @ map (\<lambda>m. (i, Json m)) (messageQueue c)\<rparr>"
proof (induction "messageQueue c" arbitrary: c)
  case Nil
  then show ?case by (subst flushMessageQueue.simps) simp
next
  case (Cons m ms)
  let ?c = "ws_send (Json m) (c\<lparr>messageQueue := ms\<rparr>)"
  have c': "?c = c\<lparr>messageQueue := ms, wire := wire c @ [(i, Json m)]\<rparr>"
    using Cons.prems by (simp add: ws_send_def)
  have op: "ws_is_open (c\<lparr>messageQueue := ms\<rparr>)"
    using Cons.prems by (simp add: ws_is_open_def)
  have q: "messageQueue c = m # ms" using Cons.hyps(2) by simp
  have step: "flushMessageQueue c = flushMessageQueue ?c"
    using Cons.prems(1) op
    by (subst flushMessageQueue.simps) (simp add: q Let_def)
  have "ms = messageQueue ?c" by (simp add: c')
  from Cons.hyps(1) [OF this] Cons.prems
  have "flushMessageQueue ?c =
      ?c\<lparr>messageQueue := [], wire := wire ?c @ map (\<lambda>m. (i, Json m)) (messageQueue ?c)\<rparr>"
    by (simp add: c')
  then show ?case by (simp add: step c' q)
qed

lemma flushMessageQueue_not_open:
  "connected c \<Longrightarrow> \<not> ws_is_open c \<Longrightarrow> flushMessageQueue c = c\<lparr>messageQueue := []\<rparr>"
proof (induction "messageQueue c" arbitrary: c)
  case Nil
  then show ?case by (subst flushMessageQueue.simps) simp
next
  case (Cons m ms)
  let ?c = "c\<lparr>messageQueue := ms\<rparr>"
  have no: "\<not> ws_is_open ?c"
    using Cons.prems by (simp add: ws_is_open_def split: option.splits)
  have q: "messageQueue c = m # ms" using Cons.hyps(2) by simp
  have step: "flushMessageQueue c = flushMessageQueue ?c"
    using Cons.prems(1) no
    by (subst flushMessageQueue.simps) (simp add: q Let_def)
  have "ms = messageQueue ?c" by simp
  from Cons.hyps(1) [OF this] Cons.prems(1) no
  have "flushMessageQueue ?c = ?c\<lparr>messageQueue := []\<rparr>" by simp
  then show ?case by (simp add: step)
qed

text \<open>
  C7. A command sent before the first socket has opened is queued, and \<open>send\<close> starts
  a second connection. When the first socket opens, the flush finds \<^verbatim>\<open>this.ws\<close>
  (the second socket) still connecting: the command is taken off the queue and sent
  nowhere.
\<close>

theorem C7_flush_drops_queued_command:
  "\<not> connected loaded_client
   \<and> messageQueue queued_client = [join_message]
   \<and> messageQueue (ws_onopen 0 queued_client) = []
   \<and> wire (ws_onopen 0 queued_client) = []
   \<and> connected (ws_onopen 0 queued_client)"
proof -
  have l: "loaded_client =
      (new_client False)\<lparr>ws := Some 0, sockets := [CONNECTING], playerId := Some ''player_a''\<rparr>"
    by (simp add: loaded_client_def connect_def new_client_def)
  have q: "queued_client =
      (new_client False)\<lparr>ws := Some 1, sockets := [CONNECTING, CONNECTING],
         playerId := Some ''player_b'', messageQueue := [join_message]\<rparr>"
    by (simp add: queued_client_def l send_def connect_def new_client_def Let_def
        join_message_def ws_is_open_def)
  let ?c = "queued_client\<lparr>sockets := (sockets queued_client)[0 := OPEN], connected := True,
                reconnectAttempts := 0\<rparr>"
  have no: "\<not> ws_is_open ?c" by (simp add: q ws_is_open_def new_client_def)
  have "connected ?c" by simp
  from flushMessageQueue_not_open [OF this no]
  have f: "flushMessageQueue ?c = ?c\<lparr>messageQueue := []\<rparr>" .
  have o: "ws_onopen 0 queued_client = signal ''connected'' (?c\<lparr>messageQueue := []\<rparr>)"
    by (simp only: ws_onopen_def f) (simp add: startKeepAlive_def signal_def q new_client_def)
  show ?thesis
    by (simp add: o signal_def) (simp add: l q new_client_def)
qed

text \<open>
  C8, counterexample. In a development build the socket opens and no heartbeat starts.
\<close>

theorem C8_onopen_counterexample:
  "pingInterval (ws_onopen 0 loaded_client) = None
   \<and> ws loaded_client = Some 0 \<and> connected (ws_onopen 0 loaded_client)"
proof -
  have l: "loaded_client =
      (new_client False)\<lparr>ws := Some 0, sockets := [CONNECTING], playerId := Some ''player_a''\<rparr>"
    by (simp add: loaded_client_def connect_def new_client_def)
  show ?thesis
    by (simp add: ws_onopen_def l new_client_def startKeepAlive_def signal_def
        flushMessageQueue.simps)
qed

lemma ws_onopen_current:
  assumes "ws c = Some i" "i < length (sockets c)"
  shows "ws_onopen i c =
     startKeepAlive
       (c\<lparr>sockets := (sockets c)[i := OPEN], connected := True, reconnectAttempts := 0,
          messageQueue := [], wire := wire c @ map (\<lambda>m. (i, Json m)) (messageQueue c),
          emitted := emitted c @ [''connected'']\<rparr>)"
proof -
  let ?c = "c\<lparr>sockets := (sockets c)[i := OPEN], connected := True, reconnectAttempts := 0\<rparr>"
  have "flushMessageQueue ?c =
     ?c\<lparr>messageQueue := [], wire := wire ?c @ map (\<lambda>m. (i, Json m)) (messageQueue ?c)\<rparr>"
    by (rule flushMessageQueue_open) (use assms in simp_all)
  then show ?thesis by (simp add: ws_onopen_def signal_def)
qed

lemma heartbeat_close_reconnects:
  assumes "ws c = Some i" "i < length (sockets c)" "isProduction c" "0 < maxReconnectAttempts c"
  shows "scheduled (ws_onclose i rnd (pong_timeout_fires (ping_tick (ws_onopen i c)))) =
           scheduled c @ [reconnect_delay True 1 rnd]
         \<and> \<not> connected (ws_onclose i rnd (pong_timeout_fires (ping_tick (ws_onopen i c))))
         \<and> pingInterval (ws_onclose i rnd (pong_timeout_fires (ping_tick (ws_onopen i c)))) = None"
  using assms
  by (simp add: ws_onopen_current [OF assms(1,2)] startKeepAlive_def stopKeepAlive_def
      ping_tick_def ws_is_open_def ws_send_def pong_timeout_fires_def ws_onclose_def
      signal_def attemptReconnect_def)

text \<open>
  C8. When the socket that opens is the client's current one, the open
  handler marks the client connected, resets the retry count to zero, sends the queued
  commands on that socket in queue order and leaves the queue empty, and emits
  \<^verbatim>\<open>connected\<close>. In a production build it also starts the heartbeat: a ping every
  30000 ms, each arming a 5000 ms timeout that closes the socket unless a pong clears it
  first; the close that follows schedules a reconnect. In any other build the open
  handler starts no heartbeat.
\<close>

theorem C8_onopen_flush_reset_keepalive:
  assumes "ws c = Some i" "i < length (sockets c)"
  shows "connected (ws_onopen i c)
   \<and> reconnectAttempts (ws_onopen i c) = 0
   \<and> messageQueue (ws_onopen i c) = []
   \<and> wire (ws_onopen i c) = wire c @ map (\<lambda>m. (i, Json m)) (messageQueue c)
   \<and> emitted (ws_onopen i c) = emitted c @ [''connected'']
   \<and> (isProduction c \<longrightarrow>
        pingInterval (ws_onopen i c) = Some 30000
        \<and> pongTimeout (ws_onopen i c) = None
        \<and> wire (ping_tick (ws_onopen i c)) = wire (ws_onopen i c) @ [(i, Ping)]
        \<and> pongTimeout (ping_tick (ws_onopen i c)) = Some 5000
        \<and> sockets (pong_timeout_fires (ping_tick (ws_onopen i c))) ! i = CLOSING
        \<and> pongTimeout (pong_received (ping_tick (ws_onopen i c))) = None
        \<and> (0 < maxReconnectAttempts c \<longrightarrow>
             scheduled (ws_onclose i rnd (pong_timeout_fires (ping_tick (ws_onopen i c)))) =
               scheduled c @ [reconnect_delay True 1 rnd]))
   \<and> (\<not> isProduction c \<longrightarrow>
        pingInterval (ws_onopen i c) = pingInterval c
        \<and> pongTimeout (ws_onopen i c) = pongTimeout c)"
  using assms heartbeat_close_reconnects [OF assms, of rnd]
  by (simp add: ws_onopen_current [OF assms] startKeepAlive_def stopKeepAlive_def
      ping_tick_def ws_is_open_def ws_send_def pong_timeout_fires_def pong_received_def)

theorem C8_onopen_flush_reset_keepalive_witness:
  "ws production_client = Some 0 \<and> 0 < length (sockets production_client)
   \<and> isProduction production_client
   \<and> wire (ws_onopen 0 production_client) =
       [(0, Json \<lparr>action = ''joinRoom'', m_playerId = None, responseId = ''joinRoom_1'',
                   params = ''ABCD''\<rparr>)]
   \<and> pingInterval (ws_onopen 0 production_client) = Some 30000
   \<and> wire (ping_tick (ws_onopen 0 production_client)) =
       wire (ws_onopen 0 production_client) @ [(0, Ping)]
   \<and> sockets (pong_timeout_fires (ping_tick (ws_onopen 0 production_client))) ! 0 = CLOSING"
proof -
  have p: "production_client =
      (new_client True)\<lparr>ws := Some 0, sockets := [CONNECTING], playerId := Some ''player_a'',
         messageQueue := [\<lparr>action = ''joinRoom'', m_playerId = None,
                            responseId = ''joinRoom_1'', params = ''ABCD''\<rparr>]\<rparr>"
    by (simp add: production_client_def send_def connect_def new_client_def Let_def)
  have h: "ws production_client = Some 0" "0 < length (sockets production_client)"
    "isProduction production_client" "wire production_client = []"
    "messageQueue production_client =
       [\<lparr>action = ''joinRoom'', m_playerId = None, responseId = ''joinRoom_1'',
          params = ''ABCD''\<rparr>]"
    by (simp_all add: p new_client_def)
  from C8_onopen_flush_reset_keepalive [OF h(1,2)] h
  show ?thesis by simp
qed

end
